theory Spec2Isabelle
  imports Main "HOL-Library.Sublist" "HOL-Library.Multiset"
begin

section \<open>JavaScript objects with numeric keys\<close>

text \<open>
  The label assignment of the client (\<open>pageLabels\<close>) and the two tables of the server's
  \<open>sessionData\<close> (\<open>problemPages\<close>, \<open>finalPdfs\<close>) are plain JavaScript objects whose
  keys are numbers. An object is modelled as the list of its own properties in insertion
  order. Reading a missing key gives \<open>undefined\<close> (\<open>None\<close>); writing an existing key keeps
  its position, writing a new key appends it; \<open>delete\<close> removes it.
\<close>

type_synonym 'v js_object = "(int \<times> 'v) list"

definition obj_get :: "'v js_object \<Rightarrow> int \<Rightarrow> 'v option" where
  "obj_get obj k = map_of obj k"

fun obj_set :: "int \<Rightarrow> 'v \<Rightarrow> 'v js_object \<Rightarrow> 'v js_object" where
  "obj_set k v [] = [(k, v)]"
| "obj_set k v ((k', v') # ps) = (if k' = k then (k, v) # ps else (k', v') # obj_set k v ps)"

definition obj_delete :: "int \<Rightarrow> 'v js_object \<Rightarrow> 'v js_object" where
  "obj_delete k obj = filter (\<lambda>p. fst p \<noteq> k) obj"

text \<open>
  \<open>Object.keys\<close> and \<open>Object.entries\<close> enumerate the keys that are array indices
  (\<open>0 .. 2^32 - 2\<close>) first, in ascending order, and then the other keys in insertion
  order.
\<close>

definition is_array_index :: "int \<Rightarrow> bool" where
  "is_array_index k = (0 \<le> k \<and> k < 4294967295)"

definition object_entries :: "'v js_object \<Rightarrow> (int \<times> 'v) list" where
  "object_entries obj =
     sort_key fst (filter (\<lambda>p. is_array_index (fst p)) obj)
       @ filter (\<lambda>p. \<not> is_array_index (fst p)) obj"

definition object_keys :: "'v js_object \<Rightarrow> int list" where
  "object_keys obj = map fst (object_entries obj)"


section \<open>The label assignment of the client (SortingPage)\<close>

text \<open>
  \<open>pageLabels\<close> maps a page number to the list of problem numbers given to that page;
  \<open>-1\<close> is "not a problem". Each handler is the function passed to \<open>setPageLabels\<close>:
  from the previous assignment to the next one. The prefetch trigger inside the two add
  handlers does not touch the assignment and is left out.
\<close>

type_synonym page_labels = "int list js_object"

definition currentProblems :: "page_labels \<Rightarrow> int \<Rightarrow> int list" where
  \<comment> \<open>\<open>newLabels[pageNumber] || []\<close>\<close>
  "currentProblems labels pageNumber =
     (case obj_get labels pageNumber of None \<Rightarrow> [] | Some ps \<Rightarrow> ps)"

definition handlePageLabel :: "int \<Rightarrow> int \<Rightarrow> page_labels \<Rightarrow> page_labels" where
  "handlePageLabel pageNumber problemNumber prev =
     (let cur = currentProblems prev pageNumber in
      if problemNumber = - 1 then obj_set pageNumber [- 1] prev
      else if problemNumber > 0 then
        (if - 1 \<notin> set cur \<and> problemNumber \<notin> set cur
         then obj_set pageNumber (cur @ [problemNumber]) prev
         else prev)
      else prev)"

definition handleKeyboardPageLabel :: "int \<Rightarrow> int \<Rightarrow> page_labels \<Rightarrow> page_labels" where
  "handleKeyboardPageLabel pageNumber problemNumber prev =
     (let cur = currentProblems prev pageNumber in
      if problemNumber = - 1 then obj_set pageNumber [- 1] prev
      else if problemNumber > 0 then
        (if - 1 \<notin> set cur
         then obj_set pageNumber (cur @ [problemNumber]) prev
         else prev)
      else prev)"

definition handleRemovePageLabel :: "int \<Rightarrow> int \<Rightarrow> page_labels \<Rightarrow> page_labels" where
  "handleRemovePageLabel pageNumber problemNumber prev =
     (let filteredProblems = filter (\<lambda>p. p \<noteq> problemNumber) (currentProblems prev pageNumber) in
      if length filteredProblems = 0 then obj_delete pageNumber prev
      else obj_set pageNumber filteredProblems prev)"

definition remove_last_occurrence :: "int \<Rightarrow> int list \<Rightarrow> int list" where
  \<comment> \<open>\<open>splice(lastIndexOf(x), 1)\<close> on a copy, when \<open>x\<close> occurs\<close>
  "remove_last_occurrence x xs = rev (remove1 x (rev xs))"

definition handleRemoveLastInstancePageLabel :: "int \<Rightarrow> int \<Rightarrow> page_labels \<Rightarrow> page_labels" where
  "handleRemoveLastInstancePageLabel pageNumber problemNumber prev =
     (let cur = currentProblems prev pageNumber in
      if problemNumber \<in> set cur then
        (let updatedProblems = remove_last_occurrence problemNumber cur in
         if length updatedProblems = 0 then obj_delete pageNumber prev
         else obj_set pageNumber updatedProblems prev)
      else prev)"

definition handleRemoveLastLabel :: "int \<Rightarrow> page_labels \<Rightarrow> page_labels" where
  "handleRemoveLastLabel pageNumber prev =
     (let cur = currentProblems prev pageNumber in
      if length cur > 0 then
        (let updatedProblems = butlast cur in
         if length updatedProblems = 0 then obj_delete pageNumber prev
         else obj_set pageNumber updatedProblems prev)
      else prev)"

text \<open>The label events of a labelling session, and their effect in sequence.\<close>

datatype label_event =
    PageLabel int int
  | KeyboardPageLabel int int
  | RemovePageLabel int int
  | RemoveLastInstancePageLabel int int
  | RemoveLastLabel int

fun apply_event :: "page_labels \<Rightarrow> label_event \<Rightarrow> page_labels" where
  "apply_event labels (PageLabel p n) = handlePageLabel p n labels"
| "apply_event labels (KeyboardPageLabel p n) = handleKeyboardPageLabel p n labels"
| "apply_event labels (RemovePageLabel p n) = handleRemovePageLabel p n labels"
| "apply_event labels (RemoveLastInstancePageLabel p n) = handleRemoveLastInstancePageLabel p n labels"
| "apply_event labels (RemoveLastLabel p) = handleRemoveLastLabel p labels"

definition apply_events :: "label_event list \<Rightarrow> page_labels \<Rightarrow> page_labels" where
  "apply_events evs labels = foldl apply_event labels evs"

definition sentinel_with_positive :: "int list \<Rightarrow> bool" where
  "sentinel_with_positive ps = (- 1 \<in> set ps \<and> (\<exists>n \<in> set ps. n > 0))"

definition sentinel_exclusive :: "page_labels \<Rightarrow> bool" where
  "sentinel_exclusive labels = (\<forall>e \<in> set labels. \<not> sentinel_with_positive (snd e))"


section \<open>Documents (the pdf-lib operations the server calls)\<close>

text \<open>
  The server handles documents only through pdf-lib: \<open>PDFDocument.load\<close>, \<open>getPages\<close>,
  \<open>copyPages\<close>, \<open>addPage\<close>, \<open>widthOfTextAtSize\<close>, \<open>drawText\<close> and \<open>save\<close>. A page is its
  content together with the texts drawn over it; a document is its list of pages; a buffer
  either holds the bytes of a document or cannot be parsed, and then carries the message
  of the parse error. Coordinates, font size, text width and opacity of the watermark are
  floating-point layout and are not part of the model. The operations fail where a
  document cannot be parsed, where a page index has no page, and where the font cannot
  encode a character of the text.
\<close>

record pdf_page =
  content :: string
  overlays :: "string list"

type_synonym pdf_document = "pdf_page list"

datatype buffer = Unparseable string | PdfBytes pdf_document

text \<open>
  What a \<open>catch\<close> clause receives: an \<open>Error\<close> with its message, or some other thrown
  value.
\<close>

datatype js_exception = JsError string | NonError

definition load :: "buffer \<Rightarrow> js_exception + pdf_document" where
  "load b = (case b of
       Unparseable msg \<Rightarrow> Inl (JsError msg)
     | PdfBytes doc \<Rightarrow> Inr doc)"

definition blank_page :: pdf_page where
  "blank_page = \<lparr>content = [], overlays = []\<rparr>"

definition save :: "pdf_document \<Rightarrow> buffer" where
  \<comment> \<open>\<open>save()\<close> gives a document without pages one blank page\<close>
  "save doc = PdfBytes (if doc = [] then [blank_page] else doc)"

definition copyPages :: "pdf_document \<Rightarrow> int \<Rightarrow> js_exception + pdf_page" where
  \<comment> \<open>\<open>copyPages(src, [index])\<close>: pdf-lib reads \<open>src.getPages()[index].node\<close>, a TypeError
      when there is no such page\<close>
  "copyPages src index =
     (if 0 \<le> index \<and> index < int (length src) then Inr (src ! nat index)
      else Inl (JsError (''Cannot read properties of undefined (reading ''
                          @ [CHR 0x27] @ ''node'' @ [CHR 0x27] @ '')'')))"

text \<open>
  The standard font Helvetica writes text in the WinAnsi encoding. Measuring a text
  encodes it character by character and throws at the first character that the encoding
  has no code for. Which characters have a code is a table of pdf-lib: it is the
  parameter \<open>enc\<close>.
\<close>

definition hex4 :: "nat \<Rightarrow> string" where
  \<comment> \<open>\<open>padStart(codePoint.toString(16), 4, '0')\<close>\<close>
  "hex4 n = map (\<lambda>i. ''0123456789abcdef'' ! ((n div 16 ^ i) mod 16)) [3, 2, 1, 0]"

definition encoding_error :: "char \<Rightarrow> js_exception" where
  \<comment> \<open>\<open>`WinAnsi cannot encode "${str}" (${hexCode})`\<close>\<close>
  "encoding_error c =
     JsError (''WinAnsi cannot encode '' @ [CHR 0x22, c, CHR 0x22]
              @ '' (0x'' @ hex4 (of_char c) @ '')'')"

definition widthOfTextAtSize :: "(char \<Rightarrow> bool) \<Rightarrow> string \<Rightarrow> js_exception + unit" where
  \<comment> \<open>the width itself is a floating-point number and is left out\<close>
  "widthOfTextAtSize enc str =
     (case find (\<lambda>c. \<not> enc c) str of None \<Rightarrow> Inr () | Some c \<Rightarrow> Inl (encoding_error c))"

definition drawText :: "string \<Rightarrow> pdf_page \<Rightarrow> pdf_page" where
  "drawText str page = page\<lparr>overlays := overlays page @ [str]\<rparr>"

fun nat_to_string :: "nat \<Rightarrow> string" where
  "nat_to_string n =
     (if n < 10 then [''0123456789'' ! n]
      else nat_to_string (n div 10) @ [''0123456789'' ! (n mod 10)])"

declare nat_to_string.simps [simp del]

definition number_to_string :: "int \<Rightarrow> string" where
  \<comment> \<open>the decimal digits of an integer, as a template literal prints a number below
      \<open>10^21\<close> in magnitude\<close>
  "number_to_string i =
     (if i < 0 then ''-'' @ nat_to_string (nat (- i)) else nat_to_string (nat i))"

definition labelText :: "int \<Rightarrow> string \<Rightarrow> int \<Rightarrow> string" where
  \<comment> \<open>\<open>`Problem ${problemNumber} - ${studentName} - Student nr: ${studentId}`\<close>\<close>
  "labelText problemNumber sname sid =
     ''Problem '' @ number_to_string problemNumber @ '' - '' @ sname
       @ '' - Student nr: '' @ number_to_string sid"


section \<open>Session data of the server\<close>

datatype processing_status = Pending | Processing | Completed | Error

record StudentData =
  s_id :: int
  s_name :: string
  originalPdfPath :: string
  pageLabels :: page_labels
  processingStatus :: processing_status
  processingError :: "string option"

record ProblemPage =
  studentId :: int
  studentName :: string
  pageNumber :: int
  pdfData :: buffer

record session =
  students :: "StudentData list"
  problemPages :: "ProblemPage list js_object"
  finalPdfs :: "buffer js_object"

text \<open>The temporary directory: what \<open>fs.readFile\<close> finds at a path, if anything.\<close>

type_synonym disk = "string \<Rightarrow> buffer option"

text \<open>
  What the background task uses from outside the session: the temporary directory and
  the encoding table of the font.
\<close>

record environment =
  tmp_files :: disk
  font_encodes :: "char \<Rightarrow> bool"

definition readFile :: "disk \<Rightarrow> string \<Rightarrow> js_exception + buffer" where
  "readFile d path = (case d path of
       None \<Rightarrow> Inl (JsError (''ENOENT: no such file or directory, open ''
                               @ [CHR 0x27] @ path @ [CHR 0x27]))
     | Some b \<Rightarrow> Inr b)"

definition find_student :: "int \<Rightarrow> session \<Rightarrow> StudentData option" where
  \<comment> \<open>\<open>sessionData.students.find(s => s.id === studentId)\<close>\<close>
  "find_student i s = find (\<lambda>st. s_id st = i) (students s)"

text \<open>
  The handlers mutate the student object that \<open>find\<close> returned: the first student of the
  roster with that id.
\<close>

fun update_first :: "int \<Rightarrow> (StudentData \<Rightarrow> StudentData) \<Rightarrow> StudentData list \<Rightarrow> StudentData list" where
  "update_first i f [] = []"
| "update_first i f (st # sts) = (if s_id st = i then f st # sts else st # update_first i f sts)"

definition update_student :: "int \<Rightarrow> (StudentData \<Rightarrow> StudentData) \<Rightarrow> session \<Rightarrow> session" where
  "update_student i f s = s\<lparr>students := update_first i f (students s)\<rparr>"

definition collection :: "session \<Rightarrow> int \<Rightarrow> ProblemPage list" where
  \<comment> \<open>the Problem Collection of a problem number, empty when the key is absent\<close>
  "collection s problemNumber =
     (case obj_get (problemPages s) problemNumber of None \<Rightarrow> [] | Some ps \<Rightarrow> ps)"

definition processedPagesCount :: "session \<Rightarrow> nat" where
  \<comment> \<open>\<open>Object.values(sessionData.problemPages).reduce((sum, pages) => sum + pages.length, 0)\<close>\<close>
  "processedPagesCount s = sum_list (map (\<lambda>e. length (snd e)) (problemPages s))"


section \<open>Background processing of one student\<close>

text \<open>
  The loop reads the page number back from the property key: \<open>parseInt(pageNumStr)\<close>.
  The key of a number below \<open>10^21\<close> in magnitude is its decimal digits, which parse to
  the number itself. From \<open>10^21\<close> on the key is the exponent form (\<open>1e+21\<close>), of which
  \<open>parseInt\<close> reads the one digit before the point or the exponent, with the sign.
\<close>

fun leading_digit :: "nat \<Rightarrow> nat" where
  "leading_digit n = (if n < 10 then n else leading_digit (n div 10))"

declare leading_digit.simps [simp del]

definition parseInt_key :: "int \<Rightarrow> int" where
  "parseInt_key k =
     (if \<bar>k\<bar> < 10 ^ 21 then k else sgn k * int (leading_digit (nat \<bar>k\<bar>)))"

definition stampPage ::
  "(char \<Rightarrow> bool) \<Rightarrow> pdf_document \<Rightarrow> int \<Rightarrow> int \<Rightarrow> string \<Rightarrow> int \<Rightarrow> js_exception + buffer" where
  \<comment> \<open>the body of \<open>if (problemNumber > 0)\<close> up to \<open>problemPdf.save()\<close>\<close>
  "stampPage enc originalPdfDoc pageNum problemNumber sname sid =
     (case copyPages originalPdfDoc (pageNum - 1) of
        Inl e \<Rightarrow> Inl e
      | Inr copiedPage \<Rightarrow>
          (let str = labelText problemNumber sname sid in
           case widthOfTextAtSize enc str of
             Inl e \<Rightarrow> Inl e
           | Inr textWidth \<Rightarrow> Inr (save [drawText str copiedPage])))"

definition pushProblemPage :: "int \<Rightarrow> ProblemPage \<Rightarrow> session \<Rightarrow> session" where
  "pushProblemPage problemNumber pp s =
     s\<lparr>problemPages := obj_set problemNumber (collection s problemNumber @ [pp]) (problemPages s)\<rparr>"

text \<open>
  Both loops return the session as it is when they stop, and the exception that stopped
  them, if any: pages filed before a failure stay filed.
\<close>

fun stampProblems ::
  "(char \<Rightarrow> bool) \<Rightarrow> pdf_document \<Rightarrow> int \<Rightarrow> string \<Rightarrow> int \<Rightarrow> int list \<Rightarrow> session
     \<Rightarrow> js_exception option \<times> session" where
  "stampProblems enc doc sid sname pageNum [] s = (None, s)"
| "stampProblems enc doc sid sname pageNum (problemNumber # rest) s =
     (if problemNumber > 0 then
        (case stampPage enc doc pageNum problemNumber sname sid of
           Inl e \<Rightarrow> (Some e, s)
         | Inr bytes \<Rightarrow>
             stampProblems enc doc sid sname pageNum rest
               (pushProblemPage problemNumber
                  \<lparr>studentId = sid, studentName = sname,
                   pageNumber = pageNum, pdfData = bytes\<rparr> s))
      else stampProblems enc doc sid sname pageNum rest s)"

fun stampEntries ::
  "(char \<Rightarrow> bool) \<Rightarrow> pdf_document \<Rightarrow> int \<Rightarrow> string \<Rightarrow> (int \<times> int list) list \<Rightarrow> session
     \<Rightarrow> js_exception option \<times> session" where
  "stampEntries enc doc sid sname [] s = (None, s)"
| "stampEntries enc doc sid sname ((pageKey, problemNums) # rest) s =
     (let pageNum = parseInt_key pageKey in
      if pageNum \<le> int (length doc) \<and> length problemNums > 0 then
        (case stampProblems enc doc sid sname pageNum problemNums s of
           (Some e, s') \<Rightarrow> (Some e, s')
         | (None, s') \<Rightarrow> stampEntries enc doc sid sname rest s')
      else stampEntries enc doc sid sname rest s)"

definition error_message :: "js_exception \<Rightarrow> string" where
  \<comment> \<open>\<open>error instanceof Error ? error.message : 'Unknown processing error'\<close>\<close>
  "error_message e = (case e of JsError m \<Rightarrow> m | NonError \<Rightarrow> ''Unknown processing error'')"

definition record_failure :: "int \<Rightarrow> js_exception \<Rightarrow> session \<Rightarrow> session" where
  \<comment> \<open>the \<open>catch\<close> branch\<close>
  "record_failure i e s =
     update_student i
       (\<lambda>st. st\<lparr>processingStatus := Error, processingError := Some (error_message e)\<rparr>) s"

text \<open>
  One run of the task, from start to end. The task is run as one step: what other
  requests do while it waits for pdf-lib or the disk is not modelled.
\<close>

definition processStudentInBackground ::
  "environment \<Rightarrow> int \<Rightarrow> string \<Rightarrow> page_labels \<Rightarrow> session \<Rightarrow> session" where
  "processStudentInBackground d sid sname labels s =
     (case find_student sid s of
        None \<Rightarrow> s
      | Some student \<Rightarrow>
          (let s1 = update_student sid (\<lambda>st. st\<lparr>processingStatus := Processing\<rparr>) s in
           case readFile (tmp_files d) (originalPdfPath student) of
             Inl e \<Rightarrow> record_failure sid e s1
           | Inr pdfBuffer \<Rightarrow>
               (case load pdfBuffer of
                  Inl e \<Rightarrow> record_failure sid e s1
                | Inr originalPdfDoc \<Rightarrow>
                    (case stampEntries (font_encodes d) originalPdfDoc sid sname (object_entries labels) s1 of
                       (Some e, s2) \<Rightarrow> record_failure sid e s2
                     | (None, s2) \<Rightarrow>
                         update_student sid (\<lambda>st. st\<lparr>processingStatus := Completed\<rparr>) s2))))"


section \<open>Request handlers\<close>

datatype 'a response = Success 'a | Failure nat string

record uploaded_file =
  originalname :: string
  path :: string

fun new_students :: "nat \<Rightarrow> uploaded_file list \<Rightarrow> StudentData list" where
  \<comment> \<open>the upload loop from index \<open>i\<close> on\<close>
  "new_students i [] = []"
| "new_students i (file # files) =
     \<lparr>s_id = int i + 1, s_name = [], originalPdfPath = path file, pageLabels = [],
      processingStatus = Pending, processingError = None\<rparr> # new_students (Suc i) files"

definition api_upload :: "uploaded_file list option \<Rightarrow> session \<Rightarrow> nat response \<times> session" where
  \<comment> \<open>\<open>req.files\<close> is \<open>None\<close> when it is missing or not an array; the answer carries
      \<open>totalStudents\<close>\<close>
  "api_upload files s =
     (case files of
        None \<Rightarrow> (Failure 400 ''No files uploaded'', s)
      | Some fs \<Rightarrow>
          (let studs = new_students 0 fs in
           (Success (length studs), \<lparr>students = studs, problemPages = [], finalPdfs = []\<rparr>)))"

text \<open>
  \<open>/api/label\<close> answers at once and starts the background task without waiting for it:
  the handler returns the answer, the session, and the task it started (the arguments of
  \<open>processStudentInBackground\<close>), if any.
\<close>

type_synonym task = "int \<times> string \<times> page_labels"

definition api_label :: "int \<Rightarrow> string \<Rightarrow> page_labels \<Rightarrow> session \<Rightarrow> unit response \<times> session \<times> task option" where
  "api_label sid sname labels s =
     (case find_student sid s of
        None \<Rightarrow> (Failure 404 ''Student not found'', s, None)
      | Some student \<Rightarrow>
          (Success (),
           update_student sid (\<lambda>st. st\<lparr>s_name := sname, pageLabels := labels\<rparr>) s,
           Some (sid, sname, labels)))"

definition run_task :: "environment \<Rightarrow> task option \<Rightarrow> session \<Rightarrow> session" where
  "run_task d t s =
     (case t of None \<Rightarrow> s
      | Some (sid, sname, labels) \<Rightarrow> processStudentInBackground d sid sname labels s)"

definition submit :: "environment \<Rightarrow> int \<Rightarrow> string \<Rightarrow> page_labels \<Rightarrow> session \<Rightarrow> session" where
  \<comment> \<open>a submission and the run of the task it starts\<close>
  "submit d sid sname labels s =
     (case api_label sid sname labels s of (r, s1, t) \<Rightarrow> run_task d t s1)"

fun concatPages :: "ProblemPage list \<Rightarrow> pdf_document \<Rightarrow> js_exception + pdf_document" where
  \<comment> \<open>\<open>for (const page of pages)\<close> in \<open>/api/finalize\<close>\<close>
  "concatPages [] finalPdf = Inr finalPdf"
| "concatPages (page # pages) finalPdf =
     (case load (pdfData page) of
        Inl e \<Rightarrow> Inl e
      | Inr pagePdf \<Rightarrow>
          (case copyPages pagePdf 0 of
             Inl e \<Rightarrow> Inl e
           | Inr copiedPage \<Rightarrow> concatPages pages (finalPdf @ [copiedPage])))"

definition buildFinalPdf :: "ProblemPage list option \<Rightarrow> js_exception + buffer" where
  \<comment> \<open>one round of the outer loop; iterating over \<open>undefined\<close> is a TypeError\<close>
  "buildFinalPdf pages =
     (case pages of
        None \<Rightarrow> Inl (JsError ''pages is not iterable'')
      | Some ps \<Rightarrow> (case concatPages ps [] of Inl e \<Rightarrow> Inl e | Inr finalPdf \<Rightarrow> Inr (save finalPdf)))"

fun finalizeProblems :: "int list \<Rightarrow> session \<Rightarrow> js_exception option \<times> session" where
  "finalizeProblems [] s = (None, s)"
| "finalizeProblems (problemNumber # rest) s =
     (case buildFinalPdf (obj_get (problemPages s) problemNumber) of
        Inl e \<Rightarrow> (Some e, s)
      | Inr finalPdfBytes \<Rightarrow>
          finalizeProblems rest (s\<lparr>finalPdfs := obj_set problemNumber finalPdfBytes (finalPdfs s)\<rparr>))"

definition api_finalize :: "session \<Rightarrow> int list response \<times> session" where
  "api_finalize s =
     (let problemNumbers = object_keys (problemPages s) in
      case finalizeProblems problemNumbers s of
        (Some e, s') \<Rightarrow> (Failure 500 ''Failed to create final PDFs'', s')
      | (None, s') \<Rightarrow> (Success problemNumbers, s'))"


section \<open>Reference functions used to state the properties\<close>

definition label_pairs :: "(int \<times> int list) list \<Rightarrow> nat" where
  \<comment> \<open>the number of (page, positive problem number) pairs, with multiplicity\<close>
  "label_pairs entries = sum_list (map (\<lambda>e. length (filter (\<lambda>n. n > 0) (snd e))) entries)"

definition valid_labels :: "pdf_document \<Rightarrow> (int \<times> int list) list \<Rightarrow> bool" where
  \<comment> \<open>every labelled page number lies in the page range of the document\<close>
  "valid_labels doc entries = (\<forall>e \<in> set entries. 1 \<le> fst e \<and> fst e \<le> int (length doc))"

definition drawable :: "environment \<Rightarrow> int \<Rightarrow> string \<Rightarrow> (int \<times> int list) list \<Rightarrow> bool" where
  \<comment> \<open>the font can encode the watermark text of every pair with a positive problem number\<close>
  "drawable d sid sname entries =
     (\<forall>e \<in> set entries. \<forall>n \<in> set (snd e).
        n > 0 \<longrightarrow> (\<forall>c \<in> set (labelText n sname sid). font_encodes d c))"

definition stamped :: "pdf_document \<Rightarrow> int \<Rightarrow> string \<Rightarrow> int \<Rightarrow> int \<Rightarrow> ProblemPage" where
  \<comment> \<open>the Stamped Page of page \<open>pageNum\<close> (in range) for one problem number\<close>
  "stamped doc sid sname pageNum problemNumber =
     \<lparr>studentId = sid, studentName = sname, pageNumber = pageNum,
      pdfData = save [drawText (labelText problemNumber sname sid) (doc ! nat (pageNum - 1))]\<rparr>"

definition contribution ::
  "pdf_document \<Rightarrow> int \<Rightarrow> string \<Rightarrow> (int \<times> int list) list \<Rightarrow> int \<Rightarrow> ProblemPage list" where
  \<comment> \<open>the Stamped Pages of one submission that belong to one problem number, in
      the order of the entries\<close>
  "contribution doc sid sname entries problemNumber =
     concat (map (\<lambda>e. map (stamped doc sid sname (parseInt_key (fst e)))
                         (filter (\<lambda>n. n = problemNumber \<and> n > 0) (snd e))) entries)"

definition document_pages :: "ProblemPage list \<Rightarrow> pdf_page list" where
  \<comment> \<open>the first page of each filed single-page document, in the order of the list\<close>
  "document_pages pages =
     concat (map (\<lambda>pp. case pdfData pp of PdfBytes doc \<Rightarrow> take 1 doc | Unparseable msg \<Rightarrow> []) pages)"

definition student_document :: "environment \<Rightarrow> session \<Rightarrow> int \<Rightarrow> pdf_document option" where
  \<comment> \<open>the original document of a known student, when it can be read and parsed\<close>
  "student_document d s i =
     (case find_student i s of
        None \<Rightarrow> None
      | Some st \<Rightarrow>
          (case readFile (tmp_files d) (originalPdfPath st) of
             Inl e \<Rightarrow> None
           | Inr b \<Rightarrow> (case load b of Inl e \<Rightarrow> None | Inr doc \<Rightarrow> Some doc)))"

definition status_of :: "session \<Rightarrow> int \<Rightarrow> processing_status option" where
  "status_of s i = map_option processingStatus (find_student i s)"

definition error_of :: "session \<Rightarrow> int \<Rightarrow> string option" where
  "error_of s i = (case find_student i s of None \<Rightarrow> None | Some st \<Rightarrow> processingError st)"


section \<open>A session used in the examples\<close>

text \<open>Two uploaded documents of three pages each, as stored after the upload.\<close>

definition example_doc :: pdf_document where
  "example_doc =
     [\<lparr>content = ''page one'', overlays = []\<rparr>,
      \<lparr>content = ''page two'', overlays = []\<rparr>,
      \<lparr>content = ''page three'', overlays = []\<rparr>]"

definition example_disk :: disk where
  "example_disk p =
     (if p = ''/tmp/pdfs-1.pdf'' \<or> p = ''/tmp/pdfs-2.pdf'' then Some (PdfBytes example_doc) else None)"

text \<open>
  The part of the WinAnsi table that the examples use: the printable ASCII characters
  \<open>0x20\<close> to \<open>0x7E\<close> have a code, the control characters before them have none.
\<close>

definition winAnsi_ascii :: "char \<Rightarrow> bool" where
  "winAnsi_ascii c = (32 \<le> (of_char c :: nat) \<and> (of_char c :: nat) \<le> 126)"

definition example_env :: environment where
  "example_env = \<lparr>tmp_files = example_disk, font_encodes = winAnsi_ascii\<rparr>"

text \<open>The same directory with the first upload replaced by bytes that are no document.\<close>

definition example_corrupt_env :: environment where
  "example_corrupt_env =
     \<lparr>tmp_files = example_disk(''/tmp/pdfs-1.pdf'' := Some (Unparseable ''No PDF header found'')),
      font_encodes = winAnsi_ascii\<rparr>"

definition example_session :: session where
  "example_session =
     \<lparr>students =
        [\<lparr>s_id = 1, s_name = [], originalPdfPath = ''/tmp/pdfs-1.pdf'', pageLabels = [],
          processingStatus = Pending, processingError = None\<rparr>,
         \<lparr>s_id = 2, s_name = [], originalPdfPath = ''/tmp/pdfs-2.pdf'', pageLabels = [],
          processingStatus = Pending, processingError = None\<rparr>],
      problemPages = [], finalPdfs = []\<rparr>"

text \<open>A student name with a line break in it.\<close>

definition example_two_line_name :: string where
  "example_two_line_name = ''Ann'' @ [CHR 0x0A] @ ''Lee''"


text \<open>The first student submitting the same labels twice.\<close>

definition example_resubmitted :: session where
  "example_resubmitted =
     submit example_env 1 ''Ann'' [(1, [1]), (3, [- 1])]
       (submit example_env 1 ''Ann'' [(1, [1]), (3, [- 1])] example_session)"


section \<open>Properties of the object model\<close>

lemma obj_get_set_same: "obj_get (obj_set k v obj) k = Some v"
  by (induction obj) (auto simp: obj_get_def)

lemma obj_get_set_other: "k' \<noteq> k \<Longrightarrow> obj_get (obj_set k v obj) k' = obj_get obj k'"
  by (induction obj) (auto simp: obj_get_def)


lemma set_obj_set: "set (obj_set k v obj) \<subseteq> insert (k, v) (set obj)"
  by (induction obj) (auto split: if_splits)

lemma set_obj_delete: "set (obj_delete k obj) \<subseteq> set obj"
  by (auto simp: obj_delete_def)

lemma obj_get_in_set: "obj_get obj k = Some v \<Longrightarrow> (k, v) \<in> set obj"
  by (simp add: obj_get_def map_of_SomeD)

lemma mset_object_entries: "mset (object_entries obj) = mset obj"
  by (simp add: object_entries_def)

lemma set_object_entries: "set (object_entries obj) = set obj"
  by (auto simp: object_entries_def)

lemma swp_subset: "set ys \<subseteq> set xs \<Longrightarrow> \<not> sentinel_with_positive xs \<Longrightarrow> \<not> sentinel_with_positive ys"
  by (auto simp: sentinel_with_positive_def)

lemma excl_obj_set:
  "sentinel_exclusive labels \<Longrightarrow> \<not> sentinel_with_positive v \<Longrightarrow> sentinel_exclusive (obj_set k v labels)"
  using set_obj_set [of k v labels] by (auto simp: sentinel_exclusive_def)

lemma excl_obj_delete: "sentinel_exclusive labels \<Longrightarrow> sentinel_exclusive (obj_delete k labels)"
  by (auto simp: sentinel_exclusive_def obj_delete_def)

lemma excl_current:
  assumes "sentinel_exclusive labels"
  shows "\<not> sentinel_with_positive (currentProblems labels p)"
proof (cases "obj_get labels p")
  case None
  then show ?thesis by (simp add: currentProblems_def sentinel_with_positive_def)
next
  case (Some ps)
  then have "(p, ps) \<in> set labels" by (rule obj_get_in_set)
  with assms have "\<not> sentinel_with_positive ps" by (force simp: sentinel_exclusive_def)
  with Some show ?thesis by (simp add: currentProblems_def)
qed

lemma excl_handlePageLabel:
  "sentinel_exclusive labels \<Longrightarrow> sentinel_exclusive (handlePageLabel p n labels)"
  using excl_current [of labels p]
  by (auto simp: handlePageLabel_def Let_def sentinel_with_positive_def intro!: excl_obj_set)

lemma excl_handleKeyboardPageLabel:
  "sentinel_exclusive labels \<Longrightarrow> sentinel_exclusive (handleKeyboardPageLabel p n labels)"
  using excl_current [of labels p]
  by (auto simp: handleKeyboardPageLabel_def Let_def sentinel_with_positive_def intro!: excl_obj_set)

lemma excl_handleRemovePageLabel:
  "sentinel_exclusive labels \<Longrightarrow> sentinel_exclusive (handleRemovePageLabel p n labels)"
  using excl_current [of labels p]
  by (auto simp: handleRemovePageLabel_def Let_def intro!: excl_obj_set excl_obj_delete
      elim!: swp_subset [rotated])

lemma set_remove_last_occurrence: "set (remove_last_occurrence x xs) \<subseteq> set xs"
  using set_remove1_subset [of x "rev xs"] by (simp add: remove_last_occurrence_def)

lemma excl_handleRemoveLastInstancePageLabel:
  "sentinel_exclusive labels \<Longrightarrow> sentinel_exclusive (handleRemoveLastInstancePageLabel p n labels)"
  using excl_current [of labels p] swp_subset [OF set_remove_last_occurrence]
  by (auto simp: handleRemoveLastInstancePageLabel_def Let_def intro!: excl_obj_set excl_obj_delete)

lemma set_butlast_subset: "set (butlast xs) \<subseteq> set xs"
  by (auto dest: in_set_butlastD)

lemma excl_handleRemoveLastLabel:
  "sentinel_exclusive labels \<Longrightarrow> sentinel_exclusive (handleRemoveLastLabel p labels)"
  using excl_current [of labels p] swp_subset [OF set_butlast_subset]
  by (auto simp: handleRemoveLastLabel_def Let_def intro!: excl_obj_set excl_obj_delete)

lemma excl_apply_event: "sentinel_exclusive labels \<Longrightarrow> sentinel_exclusive (apply_event labels ev)"
  by (cases ev)
     (simp_all add: excl_handlePageLabel excl_handleKeyboardPageLabel excl_handleRemovePageLabel
        excl_handleRemoveLastInstancePageLabel excl_handleRemoveLastLabel)

lemma excl_foldl:
  "sentinel_exclusive labels \<Longrightarrow> sentinel_exclusive (foldl apply_event labels evs)"
  by (induction evs arbitrary: labels) (simp_all add: excl_apply_event)

lemma excl_empty: "sentinel_exclusive []"
  by (simp add: sentinel_exclusive_def)

lemma add_sentinel_blocked:
  "n > 0 \<Longrightarrow> - 1 \<in> set (currentProblems labels p) \<Longrightarrow>
     handlePageLabel p n labels = labels \<and> handleKeyboardPageLabel p n labels = labels"
  by (simp add: handlePageLabel_def handleKeyboardPageLabel_def Let_def)


section \<open>Properties of the background task\<close>

subsection \<open>roster\<close>

lemma find_update_first:
  "(\<And>st. s_id (f st) = s_id st) \<Longrightarrow>
     find (\<lambda>st. s_id st = i) (update_first i f sts) = map_option f (find (\<lambda>st. s_id st = i) sts)"
  by (induction sts) auto

lemma find_student_update:
  "(\<And>st. s_id (f st) = s_id st) \<Longrightarrow>
     find_student i (update_student i f s) = map_option f (find_student i s)"
  by (simp add: find_student_def update_student_def find_update_first)

lemma update_student_tables [simp]:
  "problemPages (update_student i f s) = problemPages s"
  "finalPdfs (update_student i f s) = finalPdfs s"
  by (simp_all add: update_student_def)

lemma collection_update_student [simp]: "collection (update_student i f s) p = collection s p"
  by (simp add: collection_def)

lemma count_update_student [simp]: "processedPagesCount (update_student i f s) = processedPagesCount s"
  by (simp add: processedPagesCount_def)

subsection \<open>pushProblemPage\<close>

lemma pushProblemPage_fields [simp]:
  "students (pushProblemPage n pp s) = students s"
  "finalPdfs (pushProblemPage n pp s) = finalPdfs s"
  by (simp_all add: pushProblemPage_def)

lemma collection_push:
  "collection (pushProblemPage n pp s) p = (if p = n then collection s n @ [pp] else collection s p)"
  by (simp add: pushProblemPage_def collection_def obj_get_set_same obj_get_set_other)

lemma sum_obj_set_append:
  "sum_list (map (\<lambda>e. length (snd e)) (obj_set k ((case obj_get obj k of None \<Rightarrow> [] | Some ps \<Rightarrow> ps) @ [pp]) obj))
     = Suc (sum_list (map (\<lambda>e. length (snd e)) obj))"
  by (induction obj) (auto simp: obj_get_def)

lemma count_push: "processedPagesCount (pushProblemPage n pp s) = Suc (processedPagesCount s)"
  by (simp add: processedPagesCount_def pushProblemPage_def collection_def sum_obj_set_append)

subsection \<open>stamping\<close>

lemma leading_digit_bounds: "0 < n \<Longrightarrow> 0 < leading_digit n \<and> leading_digit n \<le> n"
proof (induction n rule: leading_digit.induct)
  case (1 n)
  show ?case
  proof (cases "n < 10")
    case True
    with "1.prems" show ?thesis by (simp add: leading_digit.simps [of n])
  next
    case False
    then have "0 < n div 10" by simp
    with False "1.IH" have "0 < leading_digit (n div 10) \<and> leading_digit (n div 10) \<le> n div 10"
      by simp
    moreover have "n div 10 \<le> n" by simp
    moreover from False have "leading_digit n = leading_digit (n div 10)"
      by (simp add: leading_digit.simps [of n])
    ultimately show ?thesis by linarith
  qed
qed

lemma parseInt_key_positive: "1 \<le> k \<Longrightarrow> 1 \<le> parseInt_key k \<and> parseInt_key k \<le> k"
proof (cases "\<bar>k\<bar> < 10 ^ 21")
  case True
  moreover assume "1 \<le> k"
  ultimately show ?thesis by (simp add: parseInt_key_def)
next
  case False
  assume k: "1 \<le> k"
  then have "0 < nat \<bar>k\<bar>" by simp
  from leading_digit_bounds [OF this] k
  have "1 \<le> int (leading_digit (nat \<bar>k\<bar>)) \<and> int (leading_digit (nat \<bar>k\<bar>)) \<le> k"
    by auto
  with False k show ?thesis by (simp add: parseInt_key_def)
qed

lemma parseInt_key_small: "\<bar>k\<bar> < 10 ^ 21 \<Longrightarrow> parseInt_key k = k"
  by (simp add: parseInt_key_def)

lemma widthOfTextAtSize_ok: "\<forall>c \<in> set str. enc c \<Longrightarrow> widthOfTextAtSize enc str = Inr ()"
proof -
  assume "\<forall>c \<in> set str. enc c"
  then have "find (\<lambda>c. \<not> enc c) str = None" by (simp add: find_None_iff)
  then show ?thesis by (simp add: widthOfTextAtSize_def)
qed

lemma stampPage_in_range:
  "1 \<le> pg \<Longrightarrow> pg \<le> int (length doc) \<Longrightarrow> \<forall>c \<in> set (labelText n sname sid). enc c \<Longrightarrow>
     stampPage enc doc pg n sname sid = Inr (pdfData (stamped doc sid sname pg n))"
  by (simp add: stampPage_def copyPages_def stamped_def widthOfTextAtSize_ok)

lemma stamped_eq:
  "\<lparr>studentId = sid, studentName = sname, pageNumber = pg,
    pdfData = pdfData (stamped doc sid sname pg n)\<rparr> = stamped doc sid sname pg n"
  by (simp add: stamped_def)

lemma stampProblems_students:
  "stampProblems enc doc sid sname pg ns s = (r, s') \<Longrightarrow> students s' = students s \<and> finalPdfs s' = finalPdfs s"
  by (induction ns arbitrary: s) (auto split: if_splits sum.splits)


lemma stampProblems_skip:
  "\<forall>n \<in> set ns. \<not> n > 0 \<Longrightarrow> stampProblems enc doc sid sname pg ns s = (None, s)"
  by (induction ns) auto

lemma stampProblems_in_range:
  assumes "1 \<le> pg" "pg \<le> int (length doc)"
    and "\<forall>n \<in> set ns. n > 0 \<longrightarrow> (\<forall>c \<in> set (labelText n sname sid). enc c)"
  shows "\<exists>s'. stampProblems enc doc sid sname pg ns s = (None, s')
           \<and> (\<forall>p. collection s' p = collection s p @ map (stamped doc sid sname pg) (filter (\<lambda>n. n = p \<and> n > 0) ns))
           \<and> processedPagesCount s' = processedPagesCount s + length (filter (\<lambda>n. n > 0) ns)"
  using assms(3)
proof (induction ns arbitrary: s)
  case Nil
  then show ?case by simp
next
  case (Cons n ns)
  from Cons.prems have rest: "\<forall>m \<in> set ns. m > 0 \<longrightarrow> (\<forall>c \<in> set (labelText m sname sid). enc c)"
    by simp
  show ?case
  proof (cases "n > 0")
    case False
    with Cons.IH [OF rest, of s] show ?thesis by auto
  next
    case True
    with Cons.prems have enc: "\<forall>c \<in> set (labelText n sname sid). enc c" by simp
    let ?s1 = "pushProblemPage n (stamped doc sid sname pg n) s"
    from Cons.IH [OF rest, of ?s1] obtain s' where
      run: "stampProblems enc doc sid sname pg ns ?s1 = (None, s')" and
      col: "\<And>p. collection s' p = collection ?s1 p @ map (stamped doc sid sname pg) (filter (\<lambda>n. n = p \<and> n > 0) ns)" and
      cnt: "processedPagesCount s' = processedPagesCount ?s1 + length (filter (\<lambda>n. n > 0) ns)"
      by blast
    have "stampProblems enc doc sid sname pg (n # ns) s = (None, s')"
      using True run by (simp add: stampPage_in_range [OF assms(1,2) enc] stamped_eq)
    moreover have "\<forall>p. collection s' p = collection s p @ map (stamped doc sid sname pg) (filter (\<lambda>m. m = p \<and> m > 0) (n # ns))"
      using True by (simp add: col collection_push)
    moreover have "processedPagesCount s' = processedPagesCount s + length (filter (\<lambda>n. n > 0) (n # ns))"
      using True by (simp add: cnt count_push)
    ultimately show ?thesis by blast
  qed
qed

lemma stampEntries_Cons:
  "stampEntries enc doc sid sname ((k, ns) # rest) s =
     (if parseInt_key k \<le> int (length doc) \<and> ns \<noteq> [] then
        (case stampProblems enc doc sid sname (parseInt_key k) ns s of
           (Some e, s') \<Rightarrow> (Some e, s')
         | (None, s') \<Rightarrow> stampEntries enc doc sid sname rest s')
      else stampEntries enc doc sid sname rest s)"
  by (simp add: Let_def)

lemma stampEntries_students:
  "stampEntries enc doc sid sname entries s = (r, s') \<Longrightarrow> students s' = students s \<and> finalPdfs s' = finalPdfs s"
proof (induction entries arbitrary: s)
  case Nil
  then show ?case by simp
next
  case (Cons e entries)
  obtain k ns where e: "e = (k, ns)" by (cases e)
  show ?case
  proof (cases "parseInt_key k \<le> int (length doc) \<and> ns \<noteq> []")
    case False
    with Cons e show ?thesis by (auto simp only: stampEntries_Cons split: if_splits)
  next
    case True
    obtain r1 s1 where sp: "stampProblems enc doc sid sname (parseInt_key k) ns s = (r1, s1)"
      by (cases "stampProblems enc doc sid sname (parseInt_key k) ns s")
    from sp have eq1: "students s1 = students s \<and> finalPdfs s1 = finalPdfs s" by (rule stampProblems_students)
    show ?thesis
    proof (cases r1)
      case None
      with True sp e Cons.prems have "stampEntries enc doc sid sname entries s1 = (r, s')"
        by (simp add: stampEntries_Cons del: stampEntries.simps)
      from Cons.IH [OF this] eq1 show ?thesis by simp
    next
      case (Some ex)
      with True sp e Cons.prems have "s' = s1"
        by (simp add: stampEntries_Cons del: stampEntries.simps)
      with eq1 show ?thesis by simp
    qed
  qed
qed


lemma stampEntries_skip:
  "\<forall>e \<in> set entries. parseInt_key (fst e) > int (length doc) \<or> (\<forall>n \<in> set (snd e). \<not> n > 0) \<Longrightarrow>
     stampEntries enc doc sid sname entries s = (None, s)"
proof (induction entries)
  case Nil
  then show ?case by simp
next
  case (Cons e entries)
  obtain k ns where e: "e = (k, ns)" by (cases e)
  from Cons.prems have rest: "stampEntries enc doc sid sname entries s = (None, s)" by (simp add: Cons.IH)
  from Cons.prems e have "parseInt_key k > int (length doc) \<or> (\<forall>n \<in> set ns. \<not> n > 0)" by simp
  then show ?case
  proof
    assume "parseInt_key k > int (length doc)"
    with e rest show ?thesis by (simp add: stampEntries_Cons del: stampEntries.simps)
  next
    assume "\<forall>n \<in> set ns. \<not> n > 0"
    then have "stampProblems enc doc sid sname (parseInt_key k) ns s = (None, s)" by (rule stampProblems_skip)
    with e rest show ?thesis by (simp add: stampEntries_Cons del: stampEntries.simps)
  qed
qed

lemma stampEntries_drop_out_of_range:
  "stampEntries enc doc sid sname entries s
     = stampEntries enc doc sid sname (filter (\<lambda>e. parseInt_key (fst e) \<le> int (length doc)) entries) s"
proof (induction entries arbitrary: s)
  case Nil
  then show ?case by simp
next
  case (Cons e entries)
  obtain k ns where e: "e = (k, ns)" by (cases e)
  show ?case unfolding e
    by (simp add: stampEntries_Cons Cons.IH del: stampEntries.simps split: prod.splits option.splits)
qed

lemma stampEntries_valid:
  assumes "\<forall>e \<in> set entries. 1 \<le> parseInt_key (fst e) \<and> parseInt_key (fst e) \<le> int (length doc)"
    and "\<forall>e \<in> set entries. \<forall>n \<in> set (snd e). n > 0 \<longrightarrow> (\<forall>c \<in> set (labelText n sname sid). enc c)"
  shows "\<exists>s'. stampEntries enc doc sid sname entries s = (None, s')
           \<and> (\<forall>p. collection s' p = collection s p @ contribution doc sid sname entries p)
           \<and> processedPagesCount s' = processedPagesCount s + label_pairs entries"
  using assms
proof (induction entries arbitrary: s)
  case Nil
  then show ?case by (simp add: contribution_def label_pairs_def)
next
  case (Cons e entries)
  obtain k ns where e: "e = (k, ns)" by (cases e)
  from Cons.prems(1) e have rng: "1 \<le> parseInt_key k" "parseInt_key k \<le> int (length doc)"
    and rest: "\<forall>e \<in> set entries. 1 \<le> parseInt_key (fst e) \<and> parseInt_key (fst e) \<le> int (length doc)"
    by simp_all
  from Cons.prems(2) e have enc: "\<forall>n \<in> set ns. n > 0 \<longrightarrow> (\<forall>c \<in> set (labelText n sname sid). enc c)"
    and rest_enc: "\<forall>e \<in> set entries. \<forall>n \<in> set (snd e). n > 0 \<longrightarrow> (\<forall>c \<in> set (labelText n sname sid). enc c)"
    by simp_all
  from stampProblems_in_range [OF rng enc, of s] obtain s1 where
    run1: "stampProblems enc doc sid sname (parseInt_key k) ns s = (None, s1)" and
    col1: "\<And>p. collection s1 p = collection s p @ map (stamped doc sid sname (parseInt_key k)) (filter (\<lambda>n. n = p \<and> n > 0) ns)" and
    cnt1: "processedPagesCount s1 = processedPagesCount s + length (filter (\<lambda>n. n > 0) ns)"
    by blast
  from Cons.IH [OF rest rest_enc, of s1] obtain s' where
    run2: "stampEntries enc doc sid sname entries s1 = (None, s')" and
    col2: "\<And>p. collection s' p = collection s1 p @ contribution doc sid sname entries p" and
    cnt2: "processedPagesCount s' = processedPagesCount s1 + label_pairs entries"
    by blast
  show ?case
  proof (cases "ns = []")
    case True
    with run1 have "s1 = s" by simp
    with True e rng run2 col2 cnt2 show ?thesis
      by (simp add: stampEntries_Cons contribution_def label_pairs_def del: stampEntries.simps)
  next
    case False
    with e rng run1 run2 have "stampEntries enc doc sid sname (e # entries) s = (None, s')"
      by (simp add: stampEntries_Cons del: stampEntries.simps)
    moreover have "\<forall>p. collection s' p = collection s p @ contribution doc sid sname (e # entries) p"
      using e by (simp add: col2 col1 contribution_def)
    moreover have "processedPagesCount s' = processedPagesCount s + label_pairs (e # entries)"
      using e by (simp add: cnt2 cnt1 label_pairs_def)
    ultimately show ?thesis by blast
  qed
qed

lemma label_pairs_object_entries: "label_pairs (object_entries obj) = label_pairs obj"
proof -
  have "sum_mset (image_mset (\<lambda>e. length (filter (\<lambda>n. n > 0) (snd e))) (mset (object_entries obj)))
      = sum_mset (image_mset (\<lambda>e. length (filter (\<lambda>n. n > 0) (snd e))) (mset obj))"
    by (simp only: mset_object_entries)
  then show ?thesis
    unfolding label_pairs_def by (simp only: sum_mset_sum_list [symmetric] mset_map)
qed

lemma valid_labels_parsed:
  "valid_labels doc labels \<Longrightarrow>
     \<forall>e \<in> set (object_entries labels). 1 \<le> parseInt_key (fst e) \<and> parseInt_key (fst e) \<le> int (length doc)"
proof
  fix e
  assume v: "valid_labels doc labels" and "e \<in> set (object_entries labels)"
  then have "1 \<le> fst e" "fst e \<le> int (length doc)"
    by (simp_all add: valid_labels_def set_object_entries)
  with parseInt_key_positive [of "fst e"]
  show "1 \<le> parseInt_key (fst e) \<and> parseInt_key (fst e) \<le> int (length doc)" by simp
qed

lemma drawable_entries:
  "drawable d sid sname labels \<Longrightarrow>
     \<forall>e \<in> set (object_entries labels). \<forall>n \<in> set (snd e).
        n > 0 \<longrightarrow> (\<forall>c \<in> set (labelText n sname sid). font_encodes d c)"
  by (simp add: drawable_def set_object_entries)

subsection \<open>the task as a whole\<close>

lemma student_document_find:
  "student_document d s i = Some doc \<Longrightarrow> \<exists>st. find_student i s = Some st"
  by (auto simp: student_document_def split: option.splits)

lemma process_unfold:
  assumes "student_document d s sid = Some doc"
  shows "processStudentInBackground d sid sname labels s =
           (case stampEntries (font_encodes d) doc sid sname (object_entries labels)
                   (update_student sid (\<lambda>st. st\<lparr>processingStatus := Processing\<rparr>) s) of
              (Some e, s2) \<Rightarrow> record_failure sid e s2
            | (None, s2) \<Rightarrow> update_student sid (\<lambda>st. st\<lparr>processingStatus := Completed\<rparr>) s2)"
  using assms
  by (auto simp: student_document_def processStudentInBackground_def Let_def
      split: option.splits sum.splits)

lemma status_of_update:
  "find_student i s = Some st \<Longrightarrow>
     status_of (update_student i (\<lambda>st. st\<lparr>processingStatus := x\<rparr>) s) i = Some x"
  by (simp add: status_of_def find_student_update)

lemma find_student_cong: "students s' = students s \<Longrightarrow> find_student i s' = find_student i s"
  by (simp add: find_student_def)

lemma student_document_cong:
  "students s' = students s \<Longrightarrow> student_document d s' i = student_document d s i"
  by (simp add: student_document_def find_student_def)

lemma student_document_update:
  assumes "\<And>st. s_id (f st) = s_id st" "\<And>st. originalPdfPath (f st) = originalPdfPath st"
  shows "student_document d (update_student i f s) i = student_document d s i"
  by (simp add: student_document_def find_student_update assms split: option.splits)

lemma process_valid:
  assumes doc: "student_document d s sid = Some doc" and v: "valid_labels doc labels"
    and dr: "drawable d sid sname labels"
  shows "\<exists>s2. processStudentInBackground d sid sname labels s
                 = update_student sid (\<lambda>st. st\<lparr>processingStatus := Completed\<rparr>) s2
            \<and> students s2 = students (update_student sid (\<lambda>st. st\<lparr>processingStatus := Processing\<rparr>) s)
            \<and> (\<forall>p. collection s2 p = collection s p @ contribution doc sid sname (object_entries labels) p)
            \<and> processedPagesCount s2 = processedPagesCount s + label_pairs labels"
proof -
  let ?s1 = "update_student sid (\<lambda>st. st\<lparr>processingStatus := Processing\<rparr>) s"
  from stampEntries_valid [OF valid_labels_parsed [OF v] drawable_entries [OF dr], of ?s1] obtain s2 where
    run: "stampEntries (font_encodes d) doc sid sname (object_entries labels) ?s1 = (None, s2)" and
    col: "\<And>p. collection s2 p = collection ?s1 p @ contribution doc sid sname (object_entries labels) p" and
    cnt: "processedPagesCount s2 = processedPagesCount ?s1 + label_pairs (object_entries labels)"
    by blast
  from stampEntries_students [OF run] have "students s2 = students ?s1" by simp
  moreover from run have "processStudentInBackground d sid sname labels s
      = update_student sid (\<lambda>st. st\<lparr>processingStatus := Completed\<rparr>) s2"
    by (simp add: process_unfold [OF doc])
  ultimately show ?thesis using col cnt by (auto simp: label_pairs_object_entries)
qed

lemma process_completed:
  assumes doc: "student_document d s sid = Some doc"
    and run: "stampEntries (font_encodes d) doc sid sname (object_entries labels)
                (update_student sid (\<lambda>st. st\<lparr>processingStatus := Processing\<rparr>) s) = (None, s2)"
  shows "status_of (processStudentInBackground d sid sname labels s) sid = Some Completed"
proof -
  let ?s1 = "update_student sid (\<lambda>st. st\<lparr>processingStatus := Processing\<rparr>) s"
  from doc obtain st where "find_student sid s = Some st" by (auto dest: student_document_find)
  then have "find_student sid ?s1 = Some (st\<lparr>processingStatus := Processing\<rparr>)"
    by (simp add: find_student_update)
  moreover from stampEntries_students [OF run] have "students s2 = students ?s1" by simp
  ultimately have "find_student sid s2 = Some (st\<lparr>processingStatus := Processing\<rparr>)"
    by (simp add: find_student_def)
  then have "status_of (update_student sid (\<lambda>st. st\<lparr>processingStatus := Completed\<rparr>) s2) sid = Some Completed"
    by (rule status_of_update)
  with run show ?thesis by (simp add: process_unfold [OF doc])
qed


subsection \<open>finalize\<close>


lemma finalizeProblems_entry:
  "finalizeProblems ks s = (r, s') \<Longrightarrow>
     obj_get (finalPdfs s') k = obj_get (finalPdfs s) k
     \<or> (\<exists>b. buildFinalPdf (obj_get (problemPages s) k) = Inr b \<and> obj_get (finalPdfs s') k = Some b)"
proof (induction ks arbitrary: s)
  case Nil
  then show ?case by simp
next
  case (Cons n ks)
  show ?case
  proof (cases "buildFinalPdf (obj_get (problemPages s) n)")
    case (Inl e)
    with Cons.prems show ?thesis by simp
  next
    case (Inr b)
    let ?s1 = "s\<lparr>finalPdfs := obj_set n b (finalPdfs s)\<rparr>"
    from Inr Cons.prems have "finalizeProblems ks ?s1 = (r, s')" by simp
    from Cons.IH [OF this] Inr show ?thesis
      by (cases "k = n") (auto simp: obj_get_set_same obj_get_set_other)
  qed
qed

lemma finalizeProblems_built:
  "finalizeProblems ks s = (None, s') \<Longrightarrow> k \<in> set ks \<Longrightarrow>
     \<exists>b. buildFinalPdf (obj_get (problemPages s) k) = Inr b \<and> obj_get (finalPdfs s') k = Some b"
proof (induction ks arbitrary: s)
  case Nil
  then show ?case by simp
next
  case (Cons n ks)
  show ?case
  proof (cases "buildFinalPdf (obj_get (problemPages s) n)")
    case (Inl e)
    with Cons.prems show ?thesis by simp
  next
    case (Inr b)
    let ?s1 = "s\<lparr>finalPdfs := obj_set n b (finalPdfs s)\<rparr>"
    from Inr Cons.prems have run: "finalizeProblems ks ?s1 = (None, s')" by simp
    show ?thesis
    proof (cases "k \<in> set ks")
      case True
      from Cons.IH [OF run True] show ?thesis by simp
    next
      case False
      with Cons.prems have "k = n" by simp
      with finalizeProblems_entry [OF run, of n] Inr show ?thesis
        by (auto simp: obj_get_set_same)
    qed
  qed
qed



lemma api_finalize_rebuilds:
  assumes "api_finalize s = (Success ks, s')" "k \<in> set ks"
  shows "\<exists>b. buildFinalPdf (Some (collection s k)) = Inr b \<and> obj_get (finalPdfs s') k = Some b"
proof -
  from assms have run: "finalizeProblems (object_keys (problemPages s)) s = (None, s')"
    and ks: "ks = object_keys (problemPages s)"
    by (auto simp: api_finalize_def Let_def split: prod.splits option.splits)
  from finalizeProblems_built [OF run] assms(2) ks obtain b where
    b: "buildFinalPdf (obj_get (problemPages s) k) = Inr b" "obj_get (finalPdfs s') k = Some b"
    by blast
  from b(1) have "obj_get (problemPages s) k \<noteq> None" by (auto simp: buildFinalPdf_def split: option.splits)
  then have "obj_get (problemPages s) k = Some (collection s k)" by (auto simp: collection_def)
  with b show ?thesis by auto
qed

subsection \<open>submissions and occurrences\<close>

lemma object_entries_filter: "object_entries (filter P obj) = filter P (object_entries obj)"
proof -
  have "filter (\<lambda>p. is_array_index (fst p)) (filter P obj) = filter P (filter (\<lambda>p. is_array_index (fst p)) obj)"
    by (simp add: conj_commute)
  moreover have "filter (\<lambda>p. \<not> is_array_index (fst p)) (filter P obj) = filter P (filter (\<lambda>p. \<not> is_array_index (fst p)) obj)"
    by (simp add: conj_commute)
  ultimately show ?thesis by (simp add: object_entries_def filter_sort)
qed

lemma find_student_record_failure:
  "find_student i s = Some st \<Longrightarrow>
     find_student i (record_failure i e s)
       = Some (st\<lparr>processingStatus := Error, processingError := Some (error_message e)\<rparr>)"
  by (simp add: record_failure_def find_student_update)

lemma process_outcome:
  assumes "find_student sid s = Some st"
  shows "status_of (processStudentInBackground d sid sname labels s) sid = Some Completed
         \<or> (status_of (processStudentInBackground d sid sname labels s) sid = Some Error
            \<and> (\<exists>m. error_of (processStudentInBackground d sid sname labels s) sid = Some m))"
proof -
  let ?s1 = "update_student sid (\<lambda>st. st\<lparr>processingStatus := Processing\<rparr>) s"
  from assms have f1: "find_student sid ?s1 = Some (st\<lparr>processingStatus := Processing\<rparr>)"
    by (simp add: find_student_update)
  have failed: "status_of (record_failure sid e s2) sid = Some Error
         \<and> (\<exists>m. error_of (record_failure sid e s2) sid = Some m)"
    if "students s2 = students ?s1" for e s2
  proof -
    from that f1 have "find_student sid s2 = Some (st\<lparr>processingStatus := Processing\<rparr>)"
      by (simp add: find_student_def)
    from find_student_record_failure [OF this, of e] show ?thesis
      by (simp add: status_of_def error_of_def)
  qed
  show ?thesis
  proof (cases "readFile (tmp_files d) (originalPdfPath st)")
    case (Inl e)
    with assms failed [of ?s1 e] show ?thesis
      by (simp add: processStudentInBackground_def)
  next
    case (Inr b)
    note rd = this
    show ?thesis
    proof (cases "load b")
      case (Inl e)
      with assms rd failed [of ?s1 e] show ?thesis
        by (simp add: processStudentInBackground_def)
    next
      case (Inr doc)
      obtain r s2 where run: "stampEntries (font_encodes d) doc sid sname (object_entries labels) ?s1 = (r, s2)"
        by (cases "stampEntries (font_encodes d) doc sid sname (object_entries labels) ?s1")
      from stampEntries_students [OF run] have st2: "students s2 = students ?s1" by simp
      show ?thesis
      proof (cases r)
        case None
        from st2 f1 have "find_student sid s2 = Some (st\<lparr>processingStatus := Processing\<rparr>)"
          by (simp add: find_student_def)
        then have "status_of (update_student sid (\<lambda>st. st\<lparr>processingStatus := Completed\<rparr>) s2) sid = Some Completed"
          by (rule status_of_update)
        with assms rd Inr run None show ?thesis
          by (simp add: processStudentInBackground_def)
      next
        case (Some e)
        with assms rd Inr run failed [OF st2, of e] show ?thesis
          by (simp add: processStudentInBackground_def)
      qed
    qed
  qed
qed

lemma process_skip:
  assumes doc: "student_document d s sid = Some doc"
    and skip: "\<forall>e \<in> set labels. parseInt_key (fst e) > int (length doc) \<or> (\<forall>n \<in> set (snd e). \<not> n > 0)"
  shows "status_of (processStudentInBackground d sid sname labels s) sid = Some Completed
         \<and> problemPages (processStudentInBackground d sid sname labels s) = problemPages s"
proof -
  let ?s1 = "update_student sid (\<lambda>st. st\<lparr>processingStatus := Processing\<rparr>) s"
  from skip have "\<forall>e \<in> set (object_entries labels). parseInt_key (fst e) > int (length doc) \<or> (\<forall>n \<in> set (snd e). \<not> n > 0)"
    by (simp add: set_object_entries)
  then have run: "stampEntries (font_encodes d) doc sid sname (object_entries labels) ?s1 = (None, ?s1)"
    by (rule stampEntries_skip)
  from process_completed [OF doc run] run show ?thesis
    by (simp add: process_unfold [OF doc])
qed

lemma process_document:
  assumes doc: "student_document d s sid = Some doc" and v: "valid_labels doc labels"
    and dr: "drawable d sid sname labels"
  shows "student_document d (processStudentInBackground d sid sname labels s) sid = Some doc"
proof -
  from process_valid [OF doc v dr] obtain s2 where
    res: "processStudentInBackground d sid sname labels s
       = update_student sid (\<lambda>st. st\<lparr>processingStatus := Completed\<rparr>) s2" and
    st2: "students s2 = students (update_student sid (\<lambda>st. st\<lparr>processingStatus := Processing\<rparr>) s)"
    by blast
  have "student_document d (update_student sid (\<lambda>st. st\<lparr>processingStatus := Completed\<rparr>) s2) sid
      = student_document d s2 sid"
    by (rule student_document_update) simp_all
  also have "\<dots> = student_document d (update_student sid (\<lambda>st. st\<lparr>processingStatus := Processing\<rparr>) s) sid"
    using st2 by (rule student_document_cong)
  also have "\<dots> = student_document d s sid"
    by (rule student_document_update) simp_all
  finally show ?thesis using res doc by simp
qed

lemma submit_unfold:
  assumes "find_student sid s = Some st"
  shows "submit d sid sname labels s
           = processStudentInBackground d sid sname labels
               (update_student sid (\<lambda>st. st\<lparr>s_name := sname, pageLabels := labels\<rparr>) s)"
  using assms by (simp add: submit_def api_label_def run_task_def)

lemma submit_valid:
  assumes doc: "student_document d s sid = Some doc" and v: "valid_labels doc labels"
    and dr: "drawable d sid sname labels"
  shows "student_document d (submit d sid sname labels s) sid = Some doc"
    and "status_of (submit d sid sname labels s) sid = Some Completed"
    and "collection (submit d sid sname labels s) p
           = collection s p @ contribution doc sid sname (object_entries labels) p"
proof -
  let ?s0 = "update_student sid (\<lambda>st. st\<lparr>s_name := sname, pageLabels := labels\<rparr>) s"
  from doc obtain st where st: "find_student sid s = Some st" by (auto dest: student_document_find)
  have "student_document d ?s0 sid = student_document d s sid"
    by (rule student_document_update) simp_all
  with doc have doc0: "student_document d ?s0 sid = Some doc" by simp
  from process_document [OF doc0 v dr] st
  show "student_document d (submit d sid sname labels s) sid = Some doc"
    by (simp add: submit_unfold)
  from process_valid [OF doc0 v dr] obtain s2 where
    res: "processStudentInBackground d sid sname labels ?s0
       = update_student sid (\<lambda>st. st\<lparr>processingStatus := Completed\<rparr>) s2" and
    col: "\<And>p. collection s2 p = collection ?s0 p @ contribution doc sid sname (object_entries labels) p"
    by blast
  from res col [of p] st
  show "collection (submit d sid sname labels s) p
           = collection s p @ contribution doc sid sname (object_entries labels) p"
    by (simp add: submit_unfold)
  from stampEntries_valid [OF valid_labels_parsed [OF v] drawable_entries [OF dr],
      of "update_student sid (\<lambda>st. st\<lparr>processingStatus := Processing\<rparr>) ?s0"]
  obtain s3 where "stampEntries (font_encodes d) doc sid sname (object_entries labels)
      (update_student sid (\<lambda>st. st\<lparr>processingStatus := Processing\<rparr>) ?s0) = (None, s3)" by blast
  from process_completed [OF doc0 this] st
  show "status_of (submit d sid sname labels s) sid = Some Completed"
    by (simp add: submit_unfold)
qed

lemma count_list_map_filter:
  "count_list (map f (filter (\<lambda>m. m = n \<and> Q m) ns)) (f n) = (if Q n then count_list ns n else 0)"
  by (induction ns) auto

lemma contribution_Cons:
  "contribution doc sid sname (e # entries) n
     = map (stamped doc sid sname (parseInt_key (fst e))) (filter (\<lambda>m. m = n \<and> m > 0) (snd e))
       @ contribution doc sid sname entries n"
  by (simp add: contribution_def)

lemma count_list_contribution:
  "n > 0 \<Longrightarrow> (pg, ns) \<in> set entries \<Longrightarrow>
     count_list ns n \<le> count_list (contribution doc sid sname entries n)
                           (stamped doc sid sname (parseInt_key pg) n)"
proof (induction entries)
  case Nil
  then show ?case by simp
next
  case (Cons e entries)
  show ?case
  proof (cases "e = (pg, ns)")
    case True
    from Cons.prems(1) count_list_map_filter [of "stamped doc sid sname (parseInt_key pg)" n "\<lambda>m. m > 0" ns]
    have "count_list (map (stamped doc sid sname (parseInt_key pg)) (filter (\<lambda>m. m = n \<and> m > 0) ns))
            (stamped doc sid sname (parseInt_key pg) n) = count_list ns n"
      by simp
    with True show ?thesis by (simp add: contribution_Cons)
  next
    case False
    with Cons have "count_list ns n \<le> count_list (contribution doc sid sname entries n)
                                      (stamped doc sid sname (parseInt_key pg) n)"
      by simp
    then show ?thesis by (simp add: contribution_Cons)
  qed
qed

lemma length_filter_occurrences:
  "n > 0 \<Longrightarrow> length (filter (\<lambda>m. m = n \<and> m > 0) ns) = count_list ns n"
  by (induction ns) auto

lemma length_contribution:
  "n > 0 \<Longrightarrow> length (contribution doc sid sname entries n) = sum_list (map (\<lambda>e. count_list (snd e) n) entries)"
proof (induction entries)
  case Nil
  then show ?case by (simp add: contribution_def)
next
  case (Cons e entries)
  from Cons.prems have "length (filter (\<lambda>m. m = n \<and> m > 0) (snd e)) = count_list (snd e) n"
    by (rule length_filter_occurrences)
  with Cons show ?case by (simp add: contribution_def)
qed

lemma occurrences_object_entries:
  "sum_list (map (\<lambda>e. count_list (snd e) n) (object_entries obj)) = sum_list (map (\<lambda>e. count_list (snd e) n) obj)"
proof -
  have "sum_mset (image_mset (\<lambda>e. count_list (snd e) n) (mset (object_entries obj)))
      = sum_mset (image_mset (\<lambda>e. count_list (snd e) n) (mset obj))"
    by (simp only: mset_object_entries)
  then show ?thesis
    by (simp only: sum_mset_sum_list [symmetric] mset_map)
qed

lemma current_keyboard_add:
  "n > 0 \<Longrightarrow> - 1 \<notin> set (currentProblems labels pg) \<Longrightarrow>
     currentProblems (handleKeyboardPageLabel pg n labels) pg = currentProblems labels pg @ [n]"
  by (simp add: handleKeyboardPageLabel_def Let_def currentProblems_def [of "obj_set _ _ _"] obj_get_set_same)

lemma current_in_set:
  "currentProblems labels pg \<noteq> [] \<Longrightarrow> (pg, currentProblems labels pg) \<in> set labels"
  by (auto simp: currentProblems_def split: option.splits dest: obj_get_in_set)

lemma current_add_sentinel:
  "currentProblems (handlePageLabel pg (- 1) labels) pg = [- 1]"
  "currentProblems (handleKeyboardPageLabel pg (- 1) labels) pg = [- 1]"
  by (simp_all add: handlePageLabel_def handleKeyboardPageLabel_def Let_def
      currentProblems_def [of "obj_set _ _ _"] obj_get_set_same)


lemma api_finalize_rebuilds_fst:
  assumes "fst (api_finalize t) = Success js" and "j \<in> set js"
  shows "\<exists>b. buildFinalPdf (Some (collection t j)) = Inr b
            \<and> obj_get (finalPdfs (snd (api_finalize t))) j = Some b"
proof -
  from assms(1) have "api_finalize t = (Success js, snd (api_finalize t))"
    by (cases "api_finalize t") simp
  from api_finalize_rebuilds [OF this assms(2)] show ?thesis .
qed


subsection \<open>what a Final Document contains\<close>

lemma concatPages_pages:
  "concatPages ps acc = Inr doc \<Longrightarrow> doc = acc @ document_pages ps"
proof (induction ps arbitrary: acc)
  case Nil
  then show ?case by (simp add: document_pages_def)
next
  case (Cons pp ps)
  show ?case
  proof (cases "pdfData pp")
    case (Unparseable msg)
    with Cons.prems show ?thesis by (simp add: load_def)
  next
    case (PdfBytes pagePdf)
    show ?thesis
    proof (cases pagePdf)
      case Nil
      with PdfBytes Cons.prems show ?thesis by (simp add: load_def copyPages_def)
    next
      case (Cons pg rest)
      with PdfBytes Cons.prems have "concatPages ps (acc @ [pg]) = Inr doc"
        by (simp add: load_def copyPages_def)
      then have "doc = (acc @ [pg]) @ document_pages ps" by (rule Cons.IH)
      with PdfBytes Cons show ?thesis by (simp add: document_pages_def)
    qed
  qed
qed

lemma buildFinalPdf_pages:
  "buildFinalPdf (Some ps) = Inr b \<Longrightarrow> b = save (document_pages ps)"
proof -
  assume "buildFinalPdf (Some ps) = Inr b"
  then obtain doc where "concatPages ps [] = Inr doc" "b = save doc"
    by (auto simp: buildFinalPdf_def split: sum.splits)
  with concatPages_pages [of ps "[]" doc] show ?thesis by simp
qed

lemma document_pages_append:
  "document_pages (ps @ qs) = document_pages ps @ document_pages qs"
  by (simp add: document_pages_def)

lemma api_finalize_document:
  assumes "fst (api_finalize t) = Success js" and "j \<in> set js"
  shows "buildFinalPdf (Some (collection t j)) = Inr (save (document_pages (collection t j)))
         \<and> obj_get (finalPdfs (snd (api_finalize t))) j = Some (save (document_pages (collection t j)))"
proof -
  from api_finalize_rebuilds_fst [OF assms] obtain b where
    b: "buildFinalPdf (Some (collection t j)) = Inr b"
       "obj_get (finalPdfs (snd (api_finalize t))) j = Some b"
    by blast
  from buildFinalPdf_pages [OF b(1)] b show ?thesis by simp
qed

lemma document_pages_stamped:
  "document_pages (map (stamped doc sid sname pg) ns)
     = map (\<lambda>n. drawText (labelText n sname sid) (doc ! nat (pg - 1))) ns"
  by (induction ns) (simp_all add: document_pages_def stamped_def save_def)

lemma length_document_pages_contribution:
  "length (document_pages (contribution doc sid sname entries p))
     = length (contribution doc sid sname entries p)"
proof (induction entries)
  case Nil
  then show ?case by (simp add: contribution_def document_pages_def)
next
  case (Cons e entries)
  then show ?case
    by (simp add: contribution_Cons document_pages_append document_pages_stamped)
qed


section \<open>The example session\<close>

lemma example_upload:
  "api_upload (Some [\<lparr>originalname = ''ann.pdf'', path = ''/tmp/pdfs-1.pdf''\<rparr>,
                     \<lparr>originalname = ''bob.pdf'', path = ''/tmp/pdfs-2.pdf''\<rparr>]) s
     = (Success 2, example_session)"
  by (simp add: api_upload_def example_session_def)

lemma example_document: "student_document example_env example_session 1 = Some example_doc"
  by (simp add: student_document_def find_student_def example_session_def example_env_def
      example_disk_def readFile_def load_def)

lemma example_length: "length example_doc = 3"
  by (simp add: example_doc_def)

lemma example_drawable:
  "drawable example_env 1 ''Ann'' [(1, [1, 2]), (2, [2]), (3, [- 1])]"
  "drawable example_env 1 ''Ann'' [(1, [1]), (5, [2])]"
  "drawable example_env 1 ''Ann'' [(1, [1]), (3, [- 1])]"
  "drawable example_env 1 ''Ann'' [(1, [2, 2])]"
  by code_simp+





lemma example_resubmitted_ok: "fst (api_finalize example_resubmitted) = Success [1]"
  by code_simp

lemma example_resubmitted_doc:
  "obj_get (finalPdfs (snd (api_finalize example_resubmitted))) 1
     = Some (PdfBytes
         [\<lparr>content = ''page one'', overlays = [''Problem 1 - Ann - Student nr: 1'']\<rparr>,
          \<lparr>content = ''page one'', overlays = [''Problem 1 - Ann - Student nr: 1'']\<rparr>])"
  by code_simp


section \<open>The claims\<close>

text \<open>
  Claim C1, amended. When the original document of a known student can be read and
  parsed, every labelled page number lies in its page range, and the font can encode the
  watermark text of every pair of a page and a positive problem number, the background
  task completes and adds to the Problem Collections, in total, as many Stamped Pages as
  the assignment has such pairs, counted with multiplicity. \<open>label_pairs\<close> counts
  positive numbers only: \<open>-1\<close> and every other non-positive number add nothing.
\<close>

theorem stamped_pages_count:
  assumes "student_document d s sid = Some doc" and "valid_labels doc labels"
    and "drawable d sid sname labels"
  shows "status_of (processStudentInBackground d sid sname labels s) sid = Some Completed
         \<and> processedPagesCount (processStudentInBackground d sid sname labels s)
             = processedPagesCount s + label_pairs labels"
proof -
  from stampEntries_valid [OF valid_labels_parsed [OF assms(2)] drawable_entries [OF assms(3)],
      of "update_student sid (\<lambda>st. st\<lparr>processingStatus := Processing\<rparr>) s"]
  obtain s3 where "stampEntries (font_encodes d) doc sid sname (object_entries labels)
      (update_student sid (\<lambda>st. st\<lparr>processingStatus := Processing\<rparr>) s) = (None, s3)" by blast
  from process_completed [OF assms(1) this]
  have fin: "status_of (processStudentInBackground d sid sname labels s) sid = Some Completed" .
  from process_valid [OF assms] obtain s2 where
    "processStudentInBackground d sid sname labels s
       = update_student sid (\<lambda>st. st\<lparr>processingStatus := Completed\<rparr>) s2"
    "processedPagesCount s2 = processedPagesCount s + label_pairs labels"
    by blast
  with fin show ?thesis by simp
qed

theorem stamped_pages_count_witness:
  "student_document example_env example_session 1 = Some example_doc
   \<and> valid_labels example_doc [(1, [1, 2]), (2, [2]), (3, [- 1])]
   \<and> drawable example_env 1 ''Ann'' [(1, [1, 2]), (2, [2]), (3, [- 1])]
   \<and> status_of
        (processStudentInBackground example_env 1 ''Ann'' [(1, [1, 2]), (2, [2]), (3, [- 1])] example_session) 1
      = Some Completed
   \<and> processedPagesCount
        (processStudentInBackground example_env 1 ''Ann'' [(1, [1, 2]), (2, [2]), (3, [- 1])] example_session)
      = 3"
proof -
  have v: "valid_labels example_doc [(1, [1, 2]), (2, [2]), (3, [- 1])]"
    by (simp add: valid_labels_def example_doc_def)
  have "processedPagesCount example_session = 0"
    by (simp add: processedPagesCount_def example_session_def)
  moreover have "label_pairs [(1, [1, 2]), (2, [2]), (3, [- 1])] = 3"
    by (simp add: label_pairs_def)
  ultimately show ?thesis
    using stamped_pages_count [OF example_document v example_drawable(1)] example_document v
      example_drawable(1)
    by simp
qed

text \<open>
  Claim C1 as written fails: student 1 of the example labels pages 1 and 2 of a document
  of three pages, two pairs, under a name with a line break, which the font cannot
  encode. Measuring the first watermark text throws; the task ends in \<open>error\<close> and no
  page is filed.
\<close>

theorem stamped_pages_count_counterexample:
  "student_document example_env example_session 1 = Some example_doc
   \<and> valid_labels example_doc [(1, [1]), (2, [2])]
   \<and> label_pairs [(1, [1]), (2, [2])] = 2
   \<and> processedPagesCount example_session = 0
   \<and> processedPagesCount
        (processStudentInBackground example_env 1 example_two_line_name [(1, [1]), (2, [2])] example_session)
      = 0
   \<and> status_of
        (processStudentInBackground example_env 1 example_two_line_name [(1, [1]), (2, [2])] example_session) 1
      = Some Error"
  by code_simp

text \<open>
  Claim C2, amended. For a known student whose original document can be read and parsed, a
  labelled page number that \<open>parseInt\<close> reads from its key as above the page count does
  not reach the stamping code: the guard \<open>pageNum <= originalPages.length\<close> skips the
  entry, so the task ends exactly as it would without those entries. It ends with status
  \<open>completed\<close> when no labelled page number is below 1 and the font can encode the
  watermark texts. Whatever happens in the task, it ends with the student either
  \<open>completed\<close> or in \<open>error\<close> with a recorded message.
\<close>

theorem out_of_range_pages_skipped:
  assumes "student_document d s sid = Some doc"
  shows "processStudentInBackground d sid sname labels s
           = processStudentInBackground d sid sname
               (filter (\<lambda>e. parseInt_key (fst e) \<le> int (length doc)) labels) s
         \<and> ((\<forall>e \<in> set labels. 1 \<le> fst e) \<and> drawable d sid sname labels \<longrightarrow>
              status_of (processStudentInBackground d sid sname labels s) sid = Some Completed)
         \<and> (status_of (processStudentInBackground d sid sname labels s) sid = Some Completed
            \<or> (status_of (processStudentInBackground d sid sname labels s) sid = Some Error
               \<and> (\<exists>m. error_of (processStudentInBackground d sid sname labels s) sid = Some m)))"
proof -
  let ?kept = "filter (\<lambda>e. parseInt_key (fst e) \<le> int (length doc)) labels"
  have same: "processStudentInBackground d sid sname labels s
           = processStudentInBackground d sid sname ?kept s"
    using stampEntries_drop_out_of_range [of "font_encodes d" doc sid sname "object_entries labels"]
    by (simp add: process_unfold [OF assms] object_entries_filter)
  have "status_of (processStudentInBackground d sid sname labels s) sid = Some Completed"
    if pos: "\<forall>e \<in> set labels. 1 \<le> fst e" and dr: "drawable d sid sname labels"
  proof -
    have "\<forall>e \<in> set (object_entries ?kept). 1 \<le> parseInt_key (fst e) \<and> parseInt_key (fst e) \<le> int (length doc)"
      using pos parseInt_key_positive by (simp add: set_object_entries)
    moreover have "\<forall>e \<in> set (object_entries ?kept). \<forall>n \<in> set (snd e).
        n > 0 \<longrightarrow> (\<forall>c \<in> set (labelText n sname sid). font_encodes d c)"
      using dr by (auto simp: drawable_def set_object_entries)
    ultimately obtain s2 where "stampEntries (font_encodes d) doc sid sname (object_entries ?kept)
        (update_student sid (\<lambda>st. st\<lparr>processingStatus := Processing\<rparr>) s) = (None, s2)"
      using stampEntries_valid [of "object_entries ?kept" doc sname sid "font_encodes d"
          "update_student sid (\<lambda>st. st\<lparr>processingStatus := Processing\<rparr>) s"]
      by blast
    from process_completed [OF assms this] same show ?thesis by simp
  qed
  moreover from assms obtain st where "find_student sid s = Some st"
    by (auto dest: student_document_find)
  note process_outcome [OF this, of d sname labels]
  ultimately show ?thesis using same by blast
qed

theorem out_of_range_pages_skipped_witness:
  "student_document example_env example_session 1 = Some example_doc
   \<and> processStudentInBackground example_env 1 ''Ann'' [(1, [1]), (5, [2])] example_session
       = processStudentInBackground example_env 1 ''Ann'' [(1, [1])] example_session
   \<and> drawable example_env 1 ''Ann'' [(1, [1]), (5, [2])]
   \<and> status_of (processStudentInBackground example_env 1 ''Ann'' [(1, [1]), (5, [2])] example_session) 1
       = Some Completed"
proof -
  have f: "filter (\<lambda>e. parseInt_key (fst e) \<le> int (length example_doc)) [(1, [1]), (5, [2])] = [(1, [1 :: int])]"
    by (simp add: example_length parseInt_key_small)
  have p: "\<forall>e \<in> set [(1 :: int, [1 :: int]), (5, [2])]. 1 \<le> fst e" by simp
  from out_of_range_pages_skipped [OF example_document, of "''Ann''" "[(1, [1]), (5, [2])]"] p
    example_drawable(2)
  have "processStudentInBackground example_env 1 ''Ann'' [(1, [1]), (5, [2])] example_session
       = processStudentInBackground example_env 1 ''Ann''
           (filter (\<lambda>e. parseInt_key (fst e) \<le> int (length example_doc)) [(1, [1]), (5, [2])]) example_session"
    and "status_of (processStudentInBackground example_env 1 ''Ann'' [(1, [1]), (5, [2])] example_session) 1
       = Some Completed"
    by blast+
  then show ?thesis unfolding f using example_document example_drawable(2) by blast
qed

text \<open>
  Claim C2 as written fails: student 1 of the example has a document of three pages and
  submits a label for page 5. The task ends with status \<open>completed\<close> and records no
  error.
\<close>

theorem out_of_range_page_counterexample:
  "student_document example_env example_session 1 = Some example_doc
   \<and> int (length example_doc) < 5
   \<and> status_of (processStudentInBackground example_env 1 ''Ann'' [(5, [1])] example_session) 1
       = Some Completed
   \<and> error_of (processStudentInBackground example_env 1 ''Ann'' [(5, [1])] example_session) 1
       = None"
proof -
  have r: "processStudentInBackground example_env 1 ''Ann'' [(5, [1])] example_session
      = update_student 1 (\<lambda>st. st\<lparr>processingStatus := Completed\<rparr>)
          (update_student 1 (\<lambda>st. st\<lparr>processingStatus := Processing\<rparr>) example_session)"
    by (simp add: process_unfold [OF example_document] object_entries_def is_array_index_def
        example_length parseInt_key_small)
  have "status_of (processStudentInBackground example_env 1 ''Ann'' [(5, [1])] example_session) 1
       = Some Completed"
    unfolding r by (simp add: update_student_def example_session_def status_of_def find_student_def)
  moreover have "error_of (processStudentInBackground example_env 1 ''Ann'' [(5, [1])] example_session) 1
       = None"
    unfolding r by (simp add: update_student_def example_session_def error_of_def find_student_def)
  ultimately show ?thesis by (simp add: example_document example_length)
qed

text \<open>
  Claim C3. An upload whose list of files is empty is to be refused. The handler refuses
  a missing \<open>req.files\<close> only: the empty list passes the check, the session is
  cleared, and the answer is a success with \<open>totalStudents = 0\<close>.
\<close>

theorem empty_upload_succeeds:
  "api_upload (Some []) s = (Success 0, \<lparr>students = [], problemPages = [], finalPdfs = []\<rparr>)"
  by (simp add: api_upload_def)

text \<open>
  Claim C4, amended. When a page carries the sentinel \<open>-1\<close>, adding a positive problem
  number to it, with the button handler or the keyboard handler, leaves the whole
  assignment as it was: the sentinel stays and nothing is added. In an assignment built
  from the empty one by label events the page then does not carry that number, so the
  sentinel and the positive number do not coexist afterwards.
\<close>

theorem positive_label_under_sentinel_ignored:
  assumes "n > 0" and "- 1 \<in> set (currentProblems labels pg)"
  shows "handlePageLabel pg n labels = labels
         \<and> handleKeyboardPageLabel pg n labels = labels
         \<and> - 1 \<in> set (currentProblems (handlePageLabel pg n labels) pg)
         \<and> - 1 \<in> set (currentProblems (handleKeyboardPageLabel pg n labels) pg)
         \<and> (labels = apply_events evs [] \<longrightarrow>
              n \<notin> set (currentProblems (handlePageLabel pg n labels) pg)
              \<and> n \<notin> set (currentProblems (handleKeyboardPageLabel pg n labels) pg))"
proof -
  from add_sentinel_blocked [OF assms]
  have hp: "handlePageLabel pg n labels = labels" and hk: "handleKeyboardPageLabel pg n labels = labels"
    by simp_all
  have "n \<notin> set (currentProblems labels pg)" if "labels = apply_events evs []"
  proof -
    from that have "sentinel_exclusive labels"
      using excl_foldl [OF excl_empty, of evs] by (simp add: apply_events_def)
    from excl_current [OF this, of pg] assms show ?thesis
      by (auto simp: sentinel_with_positive_def)
  qed
  then show ?thesis unfolding hp hk using assms(2) by blast
qed

theorem positive_label_under_sentinel_ignored_witness:
  "(3::int) > 0
   \<and> apply_events [KeyboardPageLabel 2 4, PageLabel 1 (- 1)] [] = [(2, [4]), (1, [- 1])]
   \<and> - 1 \<in> set (currentProblems [(2, [4]), (1, [- 1])] 1)
   \<and> handlePageLabel 1 3 [(2, [4]), (1, [- 1])] = [(2, [4]), (1, [- 1])]
   \<and> handleKeyboardPageLabel 1 3 [(2, [4]), (1, [- 1])] = [(2, [4]), (1, [- 1])]
   \<and> 3 \<notin> set (currentProblems (handlePageLabel 1 3 [(2, [4]), (1, [- 1])]) 1)
   \<and> 3 \<notin> set (currentProblems (handleKeyboardPageLabel 1 3 [(2, [4]), (1, [- 1])]) 1)"
proof -
  have c: "- 1 \<in> set (currentProblems [(2, [4]), (1, [- 1])] 1)"
    by (simp add: currentProblems_def obj_get_def)
  have e: "[(2, [4]), (1, [- 1])] = apply_events [KeyboardPageLabel 2 4, PageLabel 1 (- 1)] []"
    by (simp add: apply_events_def handlePageLabel_def handleKeyboardPageLabel_def
        currentProblems_def obj_get_def)
  have p: "(3::int) > 0" by simp
  from positive_label_under_sentinel_ignored
      [OF p c, of "[KeyboardPageLabel 2 4, PageLabel 1 (- 1)]"] e
  have "handlePageLabel 1 3 [(2, [4]), (1, [- 1])] = [(2, [4]), (1, [- 1])]
      \<and> handleKeyboardPageLabel 1 3 [(2, [4]), (1, [- 1])] = [(2, [4]), (1, [- 1])]
      \<and> 3 \<notin> set (currentProblems (handlePageLabel 1 3 [(2, [4]), (1, [- 1])]) 1)
      \<and> 3 \<notin> set (currentProblems (handleKeyboardPageLabel 1 3 [(2, [4]), (1, [- 1])]) 1)"
    by blast
  with p c e [symmetric] show ?thesis by blast
qed

text \<open>
  Claim C4 as written fails: page 1 carries the sentinel, problem 3 is added with either
  handler, and the page still carries the sentinel alone.
\<close>

theorem sentinel_kept_counterexample:
  "handlePageLabel 1 3 [(1, [- 1])] = [(1, [- 1])]
   \<and> handleKeyboardPageLabel 1 3 [(1, [- 1])] = [(1, [- 1])]"
  by (simp add: handlePageLabel_def handleKeyboardPageLabel_def currentProblems_def obj_get_def)

text \<open>
  Claim C5. Starting from the empty assignment, after any sequence of add, keyboard add
  and remove events no label list holds both the sentinel \<open>-1\<close> and a positive
  problem number. Assigning the sentinel leaves the page with the sentinel alone, and
  assigning a positive number to a page that carries the sentinel changes nothing.
\<close>

theorem sentinel_never_with_positive:
  "sentinel_exclusive (apply_events evs [])
   \<and> currentProblems (handlePageLabel pg (- 1) labels) pg = [- 1]
   \<and> currentProblems (handleKeyboardPageLabel pg (- 1) labels) pg = [- 1]
   \<and> (n > 0 \<and> - 1 \<in> set (currentProblems labels' pg') \<longrightarrow>
        handlePageLabel pg' n labels' = labels' \<and> handleKeyboardPageLabel pg' n labels' = labels')"
  using excl_foldl [OF excl_empty, of evs] add_sentinel_blocked [of n labels' pg']
  by (simp add: apply_events_def current_add_sentinel)

theorem sentinel_never_with_positive_witness:
  "sentinel_exclusive
     (apply_events [KeyboardPageLabel 2 5, KeyboardPageLabel 1 (- 1), PageLabel 1 3,
                    KeyboardPageLabel 2 5, RemoveLastLabel 2, PageLabel 2 (- 1), RemovePageLabel 1 (- 1)] [])
   \<and> currentProblems (handlePageLabel 2 (- 1) [(2, [4, 5])]) 2 = [- 1]
   \<and> currentProblems (handleKeyboardPageLabel 2 (- 1) [(2, [4, 5])]) 2 = [- 1]
   \<and> handlePageLabel 1 3 [(1, [- 1])] = [(1, [- 1])]
   \<and> handleKeyboardPageLabel 1 3 [(1, [- 1])] = [(1, [- 1])]"
  using sentinel_never_with_positive
    [of "[KeyboardPageLabel 2 5, KeyboardPageLabel 1 (- 1), PageLabel 1 3,
          KeyboardPageLabel 2 5, RemoveLastLabel 2, PageLabel 2 (- 1), RemovePageLabel 1 (- 1)]"
        2 "[(2, [4, 5])]" 3 "[(1, [- 1])]" 1]
  by (simp add: currentProblems_def obj_get_def)



text \<open>
  Claim C7. Submitting labels for a student id that is not in the roster is answered with
  404 "Student not found", leaves the whole session as it was, and starts no background
  task.
\<close>

theorem unknown_student_not_found:
  assumes "sid \<notin> s_id ` set (students s)"
  shows "api_label sid sname labels s = (Failure 404 ''Student not found'', s, None)
         \<and> submit d sid sname labels s = s"
proof -
  from assms have "find_student sid s = None"
    by (auto simp: find_student_def find_None_iff)
  then show ?thesis by (simp add: api_label_def submit_def run_task_def)
qed

theorem unknown_student_not_found_witness:
  "7 \<notin> s_id ` set (students example_session)
   \<and> api_label 7 ''Eve'' [(1, [1])] example_session
       = (Failure 404 ''Student not found'', example_session, None)
   \<and> submit example_env 7 ''Eve'' [(1, [1])] example_session = example_session"
proof -
  have "7 \<notin> s_id ` set (students example_session)"
    by (simp add: example_session_def)
  from unknown_student_not_found [OF this, of "''Eve''" "[(1, [1])]" example_env] this
  show ?thesis by simp
qed

text \<open>
  Claim C8, amended. When the original document of a known student can be read and parsed
  and a submission has labelled pages in the document's range and watermark texts that
  the font can encode, the task completes. A second such submission for the same student
  appends its Stamped Pages after those of the first, which stay in place: each Problem
  Collection then holds the pages of both submissions, and so does the Final Document
  that a later successful finalize builds, with one page for each Stamped Page.
\<close>

theorem resubmission_appends:
  assumes "student_document d s sid = Some doc"
    and "valid_labels doc labels1" and "valid_labels doc labels2"
    and "drawable d sid name1 labels1" and "drawable d sid name2 labels2"
  shows "status_of (submit d sid name1 labels1 s) sid = Some Completed
         \<and> status_of (submit d sid name2 labels2 (submit d sid name1 labels1 s)) sid = Some Completed
         \<and> collection (submit d sid name2 labels2 (submit d sid name1 labels1 s)) p
             = collection s p @ contribution doc sid name1 (object_entries labels1) p
                 @ contribution doc sid name2 (object_entries labels2) p
         \<and> (fst (api_finalize (submit d sid name2 labels2 (submit d sid name1 labels1 s))) = Success ks
              \<and> p \<in> set ks \<longrightarrow>
             obj_get (finalPdfs (snd (api_finalize
                      (submit d sid name2 labels2 (submit d sid name1 labels1 s))))) p
               = Some (save (document_pages (collection s p)
                             @ document_pages (contribution doc sid name1 (object_entries labels1) p)
                             @ document_pages (contribution doc sid name2 (object_entries labels2) p))))
         \<and> length (document_pages (contribution doc sid name1 (object_entries labels1) p))
             = length (contribution doc sid name1 (object_entries labels1) p)
         \<and> length (document_pages (contribution doc sid name2 (object_entries labels2) p))
             = length (contribution doc sid name2 (object_entries labels2) p)"
proof -
  let ?s2 = "submit d sid name2 labels2 (submit d sid name1 labels1 s)"
  note first = submit_valid [OF assms(1) assms(2) assms(4)]
  note second = submit_valid [OF first(1) assms(3) assms(5)]
  from second(3) [of p] first(3) [of p]
  have col: "collection ?s2 p
             = collection s p @ contribution doc sid name1 (object_entries labels1) p
                 @ contribution doc sid name2 (object_entries labels2) p"
    by simp
  have "obj_get (finalPdfs (snd (api_finalize ?s2))) p = Some (save (document_pages (collection ?s2 p)))"
    if "fst (api_finalize ?s2) = Success ks" "p \<in> set ks"
    using api_finalize_document [OF that] by simp
  with col first(2) second(2) show ?thesis
    by (simp add: document_pages_append length_document_pages_contribution)
qed

theorem resubmission_appends_witness:
  "student_document example_env example_session 1 = Some example_doc
   \<and> valid_labels example_doc [(1, [1]), (3, [- 1])]
   \<and> drawable example_env 1 ''Ann'' [(1, [1]), (3, [- 1])]
   \<and> status_of (submit example_env 1 ''Ann'' [(1, [1]), (3, [- 1])] example_session) 1 = Some Completed
   \<and> status_of example_resubmitted 1 = Some Completed
   \<and> collection example_resubmitted 1
       = [stamped example_doc 1 ''Ann'' 1 1, stamped example_doc 1 ''Ann'' 1 1]
   \<and> fst (api_finalize example_resubmitted) = Success [1]
   \<and> obj_get (finalPdfs (snd (api_finalize example_resubmitted))) 1
       = Some (PdfBytes
         [\<lparr>content = ''page one'', overlays = [''Problem 1 - Ann - Student nr: 1'']\<rparr>,
          \<lparr>content = ''page one'', overlays = [''Problem 1 - Ann - Student nr: 1'']\<rparr>])"
proof -
  have v: "valid_labels example_doc [(1, [1]), (3, [- 1])]"
    by (simp add: valid_labels_def example_length)
  have c: "contribution example_doc 1 ''Ann'' (object_entries [(1, [1]), (3, [- 1])]) 1
      = [stamped example_doc 1 ''Ann'' 1 1]"
    by (simp add: contribution_def object_entries_def is_array_index_def parseInt_key_small)
  have e: "collection example_session 1 = []"
    by (simp add: collection_def example_session_def obj_get_def)
  have "(1 :: int) \<in> set [1]" by simp
  with resubmission_appends [OF example_document v v example_drawable(3) example_drawable(3), of 1 "[1]"]
    example_document v example_drawable(3) example_resubmitted_ok example_resubmitted_doc
  show ?thesis by (simp add: c e example_resubmitted_def [symmetric])
qed

text \<open>
  Claim C8 as written fails: student 1 of the example submits labels and the task
  completes; the same labels are submitted again under a name with a line break, which
  the font cannot encode. The second task ends in \<open>error\<close> and appends nothing: the
  collection still holds the one page of the first submission.
\<close>

theorem resubmission_counterexample:
  "status_of (submit example_env 1 ''Ann'' [(1, [1])] example_session) 1 = Some Completed
   \<and> collection (submit example_env 1 ''Ann'' [(1, [1])] example_session) 1
       = [stamped example_doc 1 ''Ann'' 1 1]
   \<and> status_of (submit example_env 1 example_two_line_name [(1, [1])]
        (submit example_env 1 ''Ann'' [(1, [1])] example_session)) 1 = Some Error
   \<and> collection (submit example_env 1 example_two_line_name [(1, [1])]
        (submit example_env 1 ''Ann'' [(1, [1])] example_session)) 1
       = [stamped example_doc 1 ''Ann'' 1 1]"
  by code_simp

text \<open>
  Claim C9, amended. For a known student whose original document can be read and parsed, a
  task whose assignment is empty, or has only sentinel entries, or has only page numbers
  that \<open>parseInt\<close> reads from their keys as above the page count, ends with status
  \<open>completed\<close> and leaves every Problem Collection as it was.
\<close>

theorem nothing_to_stamp_completes:
  assumes "student_document d s sid = Some doc"
    and "labels = [] \<or> (\<forall>e \<in> set labels. \<forall>n \<in> set (snd e). n = - 1)
         \<or> (\<forall>e \<in> set labels. parseInt_key (fst e) > int (length doc))"
  shows "status_of (processStudentInBackground d sid sname labels s) sid = Some Completed
         \<and> problemPages (processStudentInBackground d sid sname labels s) = problemPages s"
proof -
  from assms(2) have "\<forall>e \<in> set labels. parseInt_key (fst e) > int (length doc) \<or> (\<forall>n \<in> set (snd e). \<not> n > 0)"
  proof (elim disjE)
    assume "labels = []"
    then show ?thesis by simp
  next
    assume "\<forall>e \<in> set labels. \<forall>n \<in> set (snd e). n = - 1"
    then show ?thesis by fastforce
  next
    assume "\<forall>e \<in> set labels. parseInt_key (fst e) > int (length doc)"
    then show ?thesis by simp
  qed
  with assms(1) show ?thesis by (rule process_skip)
qed

theorem nothing_to_stamp_completes_witness:
  "student_document example_env example_session 1 = Some example_doc
   \<and> status_of (processStudentInBackground example_env 1 ''Ann'' [] example_session) 1 = Some Completed
   \<and> problemPages (processStudentInBackground example_env 1 ''Ann'' [] example_session) = []
   \<and> status_of (processStudentInBackground example_env 1 ''Ann'' [(1, [- 1]), (2, [- 1])] example_session) 1
       = Some Completed
   \<and> problemPages (processStudentInBackground example_env 1 ''Ann'' [(1, [- 1]), (2, [- 1])] example_session) = []
   \<and> status_of (processStudentInBackground example_env 1 ''Ann'' [(4, [1]), (9, [2, 3])] example_session) 1
       = Some Completed
   \<and> problemPages (processStudentInBackground example_env 1 ''Ann'' [(4, [1]), (9, [2, 3])] example_session) = []"
proof -
  have e: "problemPages example_session = []" by (simp add: example_session_def)
  have a: "([] :: page_labels) = [] \<or> (\<forall>e \<in> set ([] :: page_labels). \<forall>n \<in> set (snd e). n = - 1)
         \<or> (\<forall>e \<in> set ([] :: page_labels). parseInt_key (fst e) > int (length example_doc))"
    by simp
  have b: "[(1, [- 1]), (2, [- 1])] = ([] :: page_labels)
         \<or> (\<forall>e \<in> set [(1 :: int, [- 1 :: int]), (2, [- 1])]. \<forall>n \<in> set (snd e). n = - 1)
         \<or> (\<forall>e \<in> set [(1 :: int, [- 1 :: int]), (2, [- 1])]. parseInt_key (fst e) > int (length example_doc))"
    by simp
  have c: "[(4, [1]), (9, [2, 3])] = ([] :: page_labels)
         \<or> (\<forall>e \<in> set [(4 :: int, [1 :: int]), (9, [2, 3])]. \<forall>n \<in> set (snd e). n = - 1)
         \<or> (\<forall>e \<in> set [(4 :: int, [1 :: int]), (9, [2, 3])]. parseInt_key (fst e) > int (length example_doc))"
    by (simp add: example_length parseInt_key_small)
  from nothing_to_stamp_completes [OF example_document a, of "''Ann''"]
    nothing_to_stamp_completes [OF example_document b, of "''Ann''"]
    nothing_to_stamp_completes [OF example_document c, of "''Ann''"]
    example_document
  show ?thesis by (simp add: e)
qed

text \<open>
  Claim C9 as written fails: student 1 is known, the assignment is empty, but the
  uploaded bytes are no document. Parsing fails before the loop; the task ends in
  \<open>error\<close> with the message of the parse error.
\<close>

theorem nothing_to_stamp_counterexample:
  "find_student 1 example_session \<noteq> None
   \<and> status_of (processStudentInBackground example_corrupt_env 1 ''Ann'' [] example_session) 1
       = Some Error
   \<and> error_of (processStudentInBackground example_corrupt_env 1 ''Ann'' [] example_session) 1
       = Some ''No PDF header found''"
  by code_simp

text \<open>
  Claim C10, amended. The keyboard handler appends a positive problem number to a page
  that is not marked with the sentinel even when the number is already there. When the
  student's document can be read and parsed, the labelled pages lie in its range and the
  font can encode the watermark texts, the background task completes and files one
  Stamped Page per occurrence: the Problem Collection of that number grows by the number
  of its occurrences in the assignment, and the Stamped Page of that student, page and
  problem is in it at least twice.
\<close>

theorem keyboard_duplicate_filed_twice:
  assumes "n > 0" and "- 1 \<notin> set (currentProblems labels pg)" and "n \<in> set (currentProblems labels pg)"
    and "student_document d s sid = Some doc"
    and "valid_labels doc (handleKeyboardPageLabel pg n labels)"
    and "drawable d sid sname (handleKeyboardPageLabel pg n labels)"
  shows "currentProblems (handleKeyboardPageLabel pg n labels) pg = currentProblems labels pg @ [n]
         \<and> status_of (processStudentInBackground d sid sname (handleKeyboardPageLabel pg n labels) s) sid
             = Some Completed
         \<and> length (collection (processStudentInBackground d sid sname (handleKeyboardPageLabel pg n labels) s) n)
             = length (collection s n)
                 + sum_list (map (\<lambda>e. count_list (snd e) n) (handleKeyboardPageLabel pg n labels))
         \<and> 2 \<le> count_list
                  (collection (processStudentInBackground d sid sname (handleKeyboardPageLabel pg n labels) s) n)
                  (stamped doc sid sname (parseInt_key pg) n)"
proof -
  let ?labels = "handleKeyboardPageLabel pg n labels"
  let ?cur = "currentProblems labels pg"
  from assms(1,2) have cur: "currentProblems ?labels pg = ?cur @ [n]"
    by (rule current_keyboard_add)
  then have "currentProblems ?labels pg \<noteq> []" by simp
  then have "(pg, currentProblems ?labels pg) \<in> set ?labels" by (rule current_in_set)
  with cur have mem: "(pg, ?cur @ [n]) \<in> set (object_entries ?labels)"
    by (simp add: set_object_entries)
  from assms(3) have "count_list ?cur n \<noteq> 0" by (simp add: count_list_0_iff)
  then have "2 \<le> count_list (?cur @ [n]) n" by simp
  also from count_list_contribution [OF assms(1) mem]
  have "\<dots> \<le> count_list (contribution doc sid sname (object_entries ?labels) n)
                  (stamped doc sid sname (parseInt_key pg) n)" .
  finally have twice: "2 \<le> count_list (contribution doc sid sname (object_entries ?labels) n)
                              (stamped doc sid sname (parseInt_key pg) n)" .
  from stampEntries_valid [OF valid_labels_parsed [OF assms(5)] drawable_entries [OF assms(6)],
      of "update_student sid (\<lambda>st. st\<lparr>processingStatus := Processing\<rparr>) s"]
  obtain s3 where "stampEntries (font_encodes d) doc sid sname (object_entries ?labels)
      (update_student sid (\<lambda>st. st\<lparr>processingStatus := Processing\<rparr>) s) = (None, s3)" by blast
  from process_completed [OF assms(4) this]
  have fin: "status_of (processStudentInBackground d sid sname ?labels s) sid = Some Completed" .
  from process_valid [OF assms(4,5,6)] obtain s2 where
    res: "processStudentInBackground d sid sname ?labels s
       = update_student sid (\<lambda>st. st\<lparr>processingStatus := Completed\<rparr>) s2" and
    col: "collection s2 n = collection s n @ contribution doc sid sname (object_entries ?labels) n"
    by blast
  have len: "length (contribution doc sid sname (object_entries ?labels) n)
      = sum_list (map (\<lambda>e. count_list (snd e) n) ?labels)"
    using assms(1) by (simp add: length_contribution occurrences_object_entries)
  from twice have "2 \<le> count_list (collection s2 n) (stamped doc sid sname (parseInt_key pg) n)"
    by (simp add: col)
  with cur len fin show ?thesis by (simp add: res col)
qed

theorem keyboard_duplicate_filed_twice_witness:
  "handleKeyboardPageLabel 1 2 [(1, [2])] = [(1, [2, 2])]
   \<and> student_document example_env example_session 1 = Some example_doc
   \<and> valid_labels example_doc [(1, [2, 2])]
   \<and> drawable example_env 1 ''Ann'' [(1, [2, 2])]
   \<and> status_of (processStudentInBackground example_env 1 ''Ann'' [(1, [2, 2])] example_session) 1
       = Some Completed
   \<and> length (collection (processStudentInBackground example_env 1 ''Ann'' [(1, [2, 2])] example_session) 2) = 2
   \<and> 2 \<le> count_list (collection (processStudentInBackground example_env 1 ''Ann'' [(1, [2, 2])] example_session) 2)
            (stamped example_doc 1 ''Ann'' 1 2)"
proof -
  have k: "handleKeyboardPageLabel 1 2 [(1, [2])] = [(1, [2, 2])]"
    by (simp add: handleKeyboardPageLabel_def currentProblems_def obj_get_def)
  have c: "currentProblems [(1, [2])] 1 = [2]"
    by (simp add: currentProblems_def obj_get_def)
  have v: "valid_labels example_doc (handleKeyboardPageLabel 1 2 [(1, [2])])"
    by (simp add: k valid_labels_def example_length)
  have dr: "drawable example_env 1 ''Ann'' (handleKeyboardPageLabel 1 2 [(1, [2])])"
    by (simp add: k example_drawable(4))
  have e: "collection example_session 2 = []"
    by (simp add: collection_def example_session_def obj_get_def)
  have "(2 :: int) > 0" "- 1 \<notin> set (currentProblems [(1, [2])] 1)" "2 \<in> set (currentProblems [(1, [2])] 1)"
    by (simp_all add: c)
  from keyboard_duplicate_filed_twice [OF this example_document v dr] v example_document
    example_drawable(4)
  show ?thesis by (simp add: k e parseInt_key_small)
qed

text \<open>
  Claim C10 as written fails: page 1 of student 1 carries problem 2 twice after the
  keyboard handler, and the assignment is processed under a name with a line break,
  which the font cannot encode. The task ends in \<open>error\<close> and files no page at all.
\<close>

theorem keyboard_duplicate_counterexample:
  "handleKeyboardPageLabel 1 2 [(1, [2])] = [(1, [2, 2])]
   \<and> student_document example_env example_session 1 = Some example_doc
   \<and> valid_labels example_doc [(1, [2, 2])]
   \<and> status_of (processStudentInBackground example_env 1 example_two_line_name
        (handleKeyboardPageLabel 1 2 [(1, [2])]) example_session) 1 = Some Error
   \<and> collection (processStudentInBackground example_env 1 example_two_line_name
        (handleKeyboardPageLabel 1 2 [(1, [2])]) example_session) 2 = []"
  by code_simp

end
